theory Spec2Isabelle
  imports Complex_Main "HOL-Library.AList"
begin

section \<open>Ontario gauge sub-basin extractor: data model\<close>

text \<open>
  The script \<^verbatim>\<open>ontario_gauge_subbasins.py\<close> is glue over pandas, geopandas, the
  Earth Engine client, \<^verbatim>\<open>zipfile\<close> and \<^verbatim>\<open>os\<close>. The embedding keeps the control flow
  of every function of the script and makes its effects explicit:
  \<^item> Python floats are a type parameter \<open>'f\<close>; the script only multiplies
    (\<^verbatim>\<open>buffer_km * 1000.0\<close>) and compares with zero (\<^verbatim>\<open>sleep_sec > 0\<close>), so \<open>'f\<close> needs
    no more than a multiplication, numerals, a zero and an order;
  \<^item> exceptions are values of \<open>error\<close>; every function that can raise returns
    \<open>(error + 'a) \<times> state\<close>, the state being the one reached when the exception left;
  \<^item> the state holds the file system, the log of prints and remote calls, and the list
    \<^verbatim>\<open>combined_paths\<close> that \<^verbatim>\<open>main\<close> shares with \<^verbatim>\<open>process_gauge_row\<close>;
  \<^item> what the libraries and the remote service answer is a record \<open>env\<close> of functions.
\<close>

datatype error =
    KeyError string
  | ValueError string
  | EEException string
  | OSError string

datatype export_mode = Client | Ee_drive

record 'f args =
  gauges_csv :: string
  lat_col :: string
  lon_col :: string
  id_col :: string
  buffer_km :: 'f
  export_mode :: export_mode
  out_dir :: string
  drive_folder :: "string option"
  ee_project :: "string option"
  limit :: "int option"
  sleep_sec :: 'f

text \<open>A cell of the loaded table: a number of a numeric column, or a string.\<close>

datatype 'f cell = Num 'f | Str string

record 'f dataframe =
  columns :: "string list"
  rows :: "'f cell list list"

text \<open>
  The lazy \<^verbatim>\<open>ee.FeatureCollection\<close> expression built by \<^verbatim>\<open>get_subbasins_fc\<close>: the fixed
  dataset filtered by the bounds of a point buffered by a radius.
\<close>

record 'f feature_collection =
  fc_dataset :: string
  fc_lon :: 'f
  fc_lat :: 'f
  fc_radius :: 'f

text \<open>A feature of the dictionary returned by \<^verbatim>\<open>getInfo\<close>; either key may be missing.\<close>

record feature =
  f_geometry :: "string option"
  f_properties :: "(string \<times> string) list option"

record geodataframe =
  gdf_props :: "(string \<times> string) list list"
  gdf_geoms :: "string list"

datatype content =
    Shp_part string geodataframe
  | Zip_file "(string \<times> content) list"
  | Raw string

datatype node = Dir | File content

datatype 'f msg =
    Msg_not_initialized
  | Msg_started_task string string
  | Msg_processing string 'f 'f
  | Msg_no_subbasins string
  | Msg_wrote string
  | Msg_no_zips
  | Msg_combined_written string
  | Msg_reached_limit int
  | Msg_all_started

datatype 'f event =
    Print "'f msg"
  | Ee_initialize "string option"
  | Ee_authenticate
  | Get_info "'f feature_collection"
  | Export_start "'f feature_collection" string "string option"
  | Sleep 'f

record 'f state =
  fs :: "(string \<times> node) list"
  log :: "'f event list"
  combined_paths :: "string list"

text \<open>
  The answers of the libraries and of the remote service. Each is a function of the
  arguments of the call: the remote dataset and the faults of the disk are taken to be
  fixed during a run.
  \<^item> \<open>ee_init_ok authenticated project\<close>: whether \<^verbatim>\<open>ee.Initialize\<close> succeeds;
  \<^item> \<open>ee_auth_ok\<close>: whether \<^verbatim>\<open>ee.Authenticate\<close> succeeds;
  \<^item> \<open>read_csv\<close>: the table pandas loads from a path;
  \<^item> \<open>itertuple_fields\<close>: the field names \<^verbatim>\<open>itertuples\<close> gives the named tuples (pandas
    renames columns that are not identifiers); \<open>None\<close> when it yields plain tuples;
  \<^item> \<open>parse_float\<close>: \<^verbatim>\<open>float\<close> of a string; \<open>str_num\<close>: \<^verbatim>\<open>str\<close> of a number;
  \<^item> \<open>get_info\<close>: the \<^verbatim>\<open>features\<close> entry of \<^verbatim>\<open>fc.getInfo()\<close>, \<open>None\<close> when the key is absent;
  \<^item> \<open>shp_shape\<close>: shapely's \<^verbatim>\<open>shape\<close> of a GeoJSON geometry;
  \<^item> \<open>start_task\<close>: the identifier of the export task that was started;
  \<^item> \<open>write_fault\<close>: the error, if any, of writing the file at a path.
\<close>

record 'f env =
  ee_init_ok :: "bool \<Rightarrow> string option \<Rightarrow> bool"
  ee_auth_ok :: bool
  read_csv :: "string \<Rightarrow> error + 'f dataframe"
  itertuple_fields :: "string list \<Rightarrow> string list option"
  parse_float :: "string \<Rightarrow> 'f option"
  str_num :: "'f \<Rightarrow> string"
  get_info :: "'f feature_collection \<Rightarrow> error + feature list option"
  shp_shape :: "string \<Rightarrow> error + string"
  start_task :: "'f feature_collection \<Rightarrow> string \<Rightarrow> string option \<Rightarrow> error + string"
  write_fault :: "string \<Rightarrow> error option"

definition DATASET_ID :: string where
  "DATASET_ID = ''WWF/HydroATLAS/v1/Basins/level12''"

section \<open>Strings and paths\<close>

text \<open>\<^verbatim>\<open>s.replace(pat, "")\<close>: the occurrences of \<open>pat\<close> are removed from left to right,
  without overlap; an empty \<open>pat\<close> removes nothing.\<close>

function replace_del :: "string \<Rightarrow> string \<Rightarrow> string" where
  "replace_del pat [] = []"
| "replace_del pat (c # cs) =
     (if pat \<noteq> [] \<and> take (length pat) (c # cs) = pat
      then replace_del pat (drop (length pat) (c # cs))
      else c # replace_del pat cs)"
  by pat_completeness auto
termination
  by (relation "measure (\<lambda>(pat, s). length s)") (auto simp: neq_Nil_conv)

text \<open>\<^verbatim>\<open>os.path.join(a, b)\<close> on POSIX.\<close>

definition path_join :: "string \<Rightarrow> string \<Rightarrow> string" where
  "path_join a b =
     (if b \<noteq> [] \<and> hd b = CHR ''/'' then b
      else if a = [] \<or> last a = CHR ''/'' then a @ b
      else a @ ''/'' @ b)"

text \<open>\<^verbatim>\<open>os.path.basename(p)\<close>: what follows the last slash.\<close>

definition basename :: "string \<Rightarrow> string" where
  "basename p = rev (takeWhile (\<lambda>c. c \<noteq> CHR ''/'') (rev p))"

text \<open>The file name of a gauge: \<^verbatim>\<open>f"gauge_{gid}_subbasins"\<close>.\<close>

definition layer_of :: "string \<Rightarrow> string" where
  "layer_of gid = ''gauge_'' @ gid @ ''_subbasins''"

definition out_zip_of :: "string \<Rightarrow> string \<Rightarrow> string" where
  "out_zip_of dir gid = path_join dir (layer_of gid @ ''.zip'')"

section \<open>The file system\<close>

text \<open>
  The file system is a table from path strings to nodes; a path is under a directory
  when it extends the directory's path by a slash and a name. Paths are compared as the
  script builds them (no normalisation, no links). The empty path stands for the
  directory a relative path starts from, which exists.
\<close>

definition under :: "string \<Rightarrow> string \<Rightarrow> bool" where
  "under d p = (take (Suc (length d)) p = d @ ''/'')"

definition parent :: "string \<Rightarrow> string" where
  "parent p = rev (drop 1 (dropWhile (\<lambda>c. c \<noteq> CHR ''/'') (rev p)))"

definition path_exists :: "(string \<times> node) list \<Rightarrow> string \<Rightarrow> bool" where
  "path_exists t p = (map_of t p \<noteq> None)"

definition is_dir :: "(string \<times> node) list \<Rightarrow> string \<Rightarrow> bool" where
  "is_dir t p = (p = [] \<or> map_of t p = Some Dir)"

fun prefixes_at_slash :: "string \<Rightarrow> string \<Rightarrow> string list" where
  "prefixes_at_slash acc [] = []"
| "prefixes_at_slash acc (c # cs) =
     (if c = CHR ''/'' \<and> acc \<noteq> [] then [acc] else []) @ prefixes_at_slash (acc @ [c]) cs"

text \<open>Functions that change the file system return it with the error, if any: what was
  written before an exception stays written.\<close>

fun mk_all :: "'f env \<Rightarrow> string list \<Rightarrow> (string \<times> node) list \<Rightarrow> error option \<times> (string \<times> node) list" where
  "mk_all env [] t = (None, t)"
| "mk_all env (d # ds) t =
     (case map_of t d of
        Some (File c) \<Rightarrow> (Some (OSError d), t)
      | Some Dir \<Rightarrow> mk_all env ds t
      | None \<Rightarrow>
          (case write_fault env d of
             Some e \<Rightarrow> (Some e, t)
           | None \<Rightarrow> mk_all env ds (AList.update d Dir t)))"

text \<open>\<^verbatim>\<open>os.makedirs(p, exist_ok=True)\<close>: the missing ancestors, then \<open>p\<close>.\<close>

definition makedirs :: "'f env \<Rightarrow> string \<Rightarrow> (string \<times> node) list \<Rightarrow> error option \<times> (string \<times> node) list" where
  "makedirs env p t =
     (if p = [] then (Some (OSError p), t) else mk_all env (prefixes_at_slash [] p @ [p]) t)"

text \<open>Creating or overwriting the file at \<open>p\<close>: its directory must exist, and \<open>p\<close> must
  not be a directory.\<close>

definition write_file :: "'f env \<Rightarrow> string \<Rightarrow> content \<Rightarrow> (string \<times> node) list \<Rightarrow> error + (string \<times> node) list" where
  "write_file env p c t =
     (case write_fault env p of
        Some e \<Rightarrow> Inl e
      | None \<Rightarrow>
          if is_dir t (parent p) \<and> map_of t p \<noteq> Some Dir
          then Inr (AList.update p (File c) t)
          else Inl (OSError p))"

text \<open>The files \<^verbatim>\<open>os.walk(d)\<close> finds under \<open>d\<close>, each with its path relative to \<open>d\<close>.\<close>

definition walk_files :: "(string \<times> node) list \<Rightarrow> string \<Rightarrow> (string \<times> content) list" where
  "walk_files t d =
     concat (map (\<lambda>(p, n). case n of
                   File c \<Rightarrow> if under d p then [(drop (Suc (length d)) p, c)] else []
                 | Dir \<Rightarrow> []) t)"

text \<open>The bottom-up walk that removes every file and directory under \<open>d\<close>.\<close>

definition remove_under :: "string \<Rightarrow> (string \<times> node) list \<Rightarrow> (string \<times> node) list" where
  "remove_under d t = filter (\<lambda>(p, n). \<not> under d p) t"

definition rmdir :: "string \<Rightarrow> (string \<times> node) list \<Rightarrow> error + (string \<times> node) list" where
  "rmdir d t =
     (if map_of t d = Some Dir \<and> list_all (\<lambda>(p, n). \<not> under d p) t
      then Inr (AList.delete d t) else Inl (OSError d))"

text \<open>\<^verbatim>\<open>gdf.to_file(shp_path, driver="ESRI Shapefile")\<close>: the parts of the shapefile, written
  beside each other.\<close>

definition shapefile_exts :: "string list" where
  "shapefile_exts = [''.shp'', ''.shx'', ''.dbf'', ''.prj'', ''.cpg'']"

fun write_parts :: "'f env \<Rightarrow> string \<Rightarrow> geodataframe \<Rightarrow> string list \<Rightarrow> (string \<times> node) list \<Rightarrow> error option \<times> (string \<times> node) list" where
  "write_parts env stem g [] t = (None, t)"
| "write_parts env stem g (x # xs) t =
     (case write_file env (stem @ x) (Shp_part x g) t of
        Inl e \<Rightarrow> (Some e, t)
      | Inr t' \<Rightarrow> write_parts env stem g xs t')"

definition to_file :: "'f env \<Rightarrow> geodataframe \<Rightarrow> string \<Rightarrow> (string \<times> node) list \<Rightarrow> error option \<times> (string \<times> node) list" where
  "to_file env g shp_path t =
     write_parts env (take (length shp_path - 4) shp_path) g shapefile_exts t"

section \<open>The functions of the script\<close>

definition emit :: "'f event \<Rightarrow> 'f state \<Rightarrow> 'f state" where
  "emit ev st = st\<lparr>log := log st @ [ev]\<rparr>"

text \<open>\<^verbatim>\<open>if project:\<close> takes an empty project name as none.\<close>

definition truthy_project :: "string option \<Rightarrow> string option" where
  "truthy_project project =
     (case project of None \<Rightarrow> None | Some p \<Rightarrow> if p = [] then None else Some p)"

definition init_ee :: "'f env \<Rightarrow> string option \<Rightarrow> 'f state \<Rightarrow> (error + unit) \<times> 'f state" where
  "init_ee env project st =
     (let proj = truthy_project project;
          st1 = emit (Ee_initialize proj) st
      in if ee_init_ok env False proj then (Inr (), st1)
         else
           let st2 = emit Ee_authenticate (emit (Print Msg_not_initialized) st1)
           in if \<not> ee_auth_ok env then (Inl (EEException ''Authenticate''), st2)
              else
                let st3 = emit (Ee_initialize proj) st2
                in if ee_init_ok env True proj then (Inr (), st3)
                   else (Inl (EEException ''Initialize''), st3))"

definition ensure_dir :: "'f env \<Rightarrow> string \<Rightarrow> 'f state \<Rightarrow> (error + unit) \<times> 'f state" where
  "ensure_dir env p st =
     (if \<not> path_exists (fs st) p
      then (case makedirs env p (fs st) of
              (Some e, t) \<Rightarrow> (Inl e, st\<lparr>fs := t\<rparr>)
            | (None, t) \<Rightarrow> (Inr (), st\<lparr>fs := t\<rparr>))
      else (Inr (), st))"

definition get_subbasins_fc :: "'f::{times,numeral} \<Rightarrow> 'f \<Rightarrow> 'f \<Rightarrow> 'f feature_collection" where
  "get_subbasins_fc lon lat km =
     \<lparr>fc_dataset = DATASET_ID, fc_lon = lon, fc_lat = lat, fc_radius = km * 1000\<rparr>"

text \<open>The loop of \<^verbatim>\<open>fc_to_geodataframe\<close> over the features, with its two lists.\<close>

fun collect_feats :: "'f env \<Rightarrow> feature list \<Rightarrow> string list \<Rightarrow> (string \<times> string) list list
    \<Rightarrow> error + geodataframe" where
  "collect_feats env [] geoms props = Inr \<lparr>gdf_props = props, gdf_geoms = geoms\<rparr>"
| "collect_feats env (f # feats) geoms props =
     (case f_geometry f of
        None \<Rightarrow> Inl (KeyError ''geometry'')
      | Some g \<Rightarrow>
          (case shp_shape env g of
             Inl e \<Rightarrow> Inl e
           | Inr s \<Rightarrow>
               collect_feats env feats (geoms @ [s])
                 (props @ [case f_properties f of None \<Rightarrow> [] | Some ps \<Rightarrow> ps])))"

definition fc_to_geodataframe :: "'f env \<Rightarrow> 'f feature_collection \<Rightarrow> 'f state
    \<Rightarrow> (error + geodataframe) \<times> 'f state" where
  "fc_to_geodataframe env fc st =
     (case get_info env fc of
        Inl e \<Rightarrow> (Inl e, emit (Get_info fc) st)
      | Inr info \<Rightarrow>
          (let feats = (case info of None \<Rightarrow> [] | Some fts \<Rightarrow> fts)
           in if feats = [] then (Inr \<lparr>gdf_props = [], gdf_geoms = []\<rparr>, emit (Get_info fc) st)
              else (collect_feats env feats [] [], emit (Get_info fc) st)))"

text \<open>\<^verbatim>\<open>gdf.empty\<close>: the frame always has its geometry column, so it is empty when it has
  no row.\<close>

definition gdf_empty :: "geodataframe \<Rightarrow> bool" where
  "gdf_empty g = (gdf_geoms g = [])"

text \<open>
  \<^verbatim>\<open>write_shapefile_zip\<close>. The archive is opened (created empty) before the walk; the
  \<^verbatim>\<open>with\<close> block closes it with the entries of the walk. The clean-up then removes what
  is under the temporary directory, and the directory.
\<close>

definition write_shapefile_zip :: "'f env \<Rightarrow> geodataframe \<Rightarrow> string \<Rightarrow> string \<Rightarrow> 'f state
    \<Rightarrow> (error + unit) \<times> 'f state" where
  "write_shapefile_zip env g out_zip_path layer_name st =
     (let tmp_dir = replace_del ''.zip'' out_zip_path
      in (case ensure_dir env tmp_dir st of
            (Inl e, st1) \<Rightarrow> (Inl e, st1)
          | (Inr u, st1) \<Rightarrow>
              (case to_file env g (path_join tmp_dir (layer_name @ ''.shp'')) (fs st1) of
                 (Some e, t2) \<Rightarrow> (Inl e, st1\<lparr>fs := t2\<rparr>)
               | (None, t2) \<Rightarrow>
                   (case write_file env out_zip_path (Zip_file []) t2 of
                      Inl e \<Rightarrow> (Inl e, st1\<lparr>fs := t2\<rparr>)
                    | Inr t3 \<Rightarrow>
                        (case rmdir tmp_dir (remove_under tmp_dir
                                (AList.update out_zip_path (File (Zip_file (walk_files t3 tmp_dir))) t3)) of
                           Inl e \<Rightarrow>
                             (Inl e, st1\<lparr>fs := remove_under tmp_dir
                                (AList.update out_zip_path (File (Zip_file (walk_files t3 tmp_dir))) t3)\<rparr>)
                         | Inr t6 \<Rightarrow> (Inr (), st1\<lparr>fs := t6\<rparr>))))))"

definition queue_ee_drive_export :: "'f env \<Rightarrow> 'f feature_collection \<Rightarrow> string \<Rightarrow> string option
    \<Rightarrow> 'f state \<Rightarrow> (error + unit) \<times> 'f state" where
  "queue_ee_drive_export env fc description folder st =
     (case start_task env fc description folder of
        Inl e \<Rightarrow> (Inl e, emit (Export_start fc description folder) st)
      | Inr task_id \<Rightarrow>
          (Inr (), emit (Print (Msg_started_task description task_id))
                     (emit (Export_start fc description folder) st)))"

text \<open>\<^verbatim>\<open>row[col]\<close>, \<^verbatim>\<open>float(v)\<close> and \<^verbatim>\<open>str(v)\<close> on a cell.\<close>

definition row_get :: "(string \<times> 'f cell) list \<Rightarrow> string \<Rightarrow> error + 'f cell" where
  "row_get row col = (case map_of row col of None \<Rightarrow> Inl (KeyError col) | Some v \<Rightarrow> Inr v)"

definition float_of :: "'f env \<Rightarrow> 'f cell \<Rightarrow> error + 'f" where
  "float_of env v =
     (case v of
        Num x \<Rightarrow> Inr x
      | Str s \<Rightarrow> (case parse_float env s of None \<Rightarrow> Inl (ValueError s) | Some x \<Rightarrow> Inr x))"

definition str_of :: "'f env \<Rightarrow> 'f cell \<Rightarrow> string" where
  "str_of env v = (case v of Num x \<Rightarrow> str_num env x | Str s \<Rightarrow> s)"

definition get_float :: "'f env \<Rightarrow> (string \<times> 'f cell) list \<Rightarrow> string \<Rightarrow> error + 'f" where
  "get_float env row col =
     (case row_get row col of Inl e \<Rightarrow> Inl e | Inr v \<Rightarrow> float_of env v)"

definition get_str :: "'f env \<Rightarrow> (string \<times> 'f cell) list \<Rightarrow> string \<Rightarrow> error + string" where
  "get_str env row col =
     (case row_get row col of Inl e \<Rightarrow> Inl e | Inr v \<Rightarrow> Inr (str_of env v))"

definition process_gauge_row :: "'f::{times,numeral} env \<Rightarrow> 'f args \<Rightarrow> (string \<times> 'f cell) list
    \<Rightarrow> 'f state \<Rightarrow> (error + unit) \<times> 'f state" where
  "process_gauge_row env args row st =
     (case get_float env row (lat_col args) of
        Inl e \<Rightarrow> (Inl e, st)
      | Inr lat \<Rightarrow>
     (case get_float env row (lon_col args) of
        Inl e \<Rightarrow> (Inl e, st)
      | Inr lon \<Rightarrow>
     (case get_str env row (id_col args) of
        Inl e \<Rightarrow> (Inl e, st)
      | Inr gid \<Rightarrow>
          if export_mode args = Client then
            (case fc_to_geodataframe env (get_subbasins_fc lon lat (buffer_km args))
                    (emit (Print (Msg_processing gid lat lon)) st) of
               (Inl e, st2) \<Rightarrow> (Inl e, st2)
             | (Inr gdf, st2) \<Rightarrow>
                 if gdf_empty gdf then (Inr (), emit (Print (Msg_no_subbasins gid)) st2)
                 else
                   (case write_shapefile_zip env gdf (out_zip_of (out_dir args) gid) (layer_of gid) st2 of
                      (Inl e, st3) \<Rightarrow> (Inl e, st3)
                    | (Inr u, st3) \<Rightarrow>
                        (Inr (), emit (Print (Msg_wrote (out_zip_of (out_dir args) gid)))
                           (st3\<lparr>combined_paths := combined_paths st3 @ [out_zip_of (out_dir args) gid]\<rparr>))))
          else
            queue_ee_drive_export env (get_subbasins_fc lon lat (buffer_km args)) (layer_of gid)
              (drive_folder args) (emit (Print (Msg_processing gid lat lon)) st))))"

text \<open>
  The loop of \<^verbatim>\<open>build_combined_zip\<close>: \<^verbatim>\<open>zf.write(p, os.path.basename(p))\<close> for each path.
  A path that is a directory gives an entry with a slash after its name; a path that
  does not exist raises.
\<close>

fun zip_write_all :: "(string \<times> node) list \<Rightarrow> string list \<Rightarrow> (string \<times> content) list
    \<Rightarrow> error option \<times> (string \<times> content) list" where
  "zip_write_all t [] acc = (None, acc)"
| "zip_write_all t (p # ps) acc =
     (case map_of t p of
        None \<Rightarrow> (Some (OSError p), acc)
      | Some Dir \<Rightarrow> zip_write_all t ps (acc @ [(basename p @ ''/'', Raw [])])
      | Some (File c) \<Rightarrow> zip_write_all t ps (acc @ [(basename p, c)]))"

definition combined_of :: "string \<Rightarrow> string" where
  "combined_of dir = path_join dir ''all_gauge_subbasins.zip''"

definition build_combined_zip :: "'f env \<Rightarrow> string list \<Rightarrow> string \<Rightarrow> 'f state
    \<Rightarrow> (error + unit) \<times> 'f state" where
  "build_combined_zip env zip_paths dir st =
     (if zip_paths = [] then (Inr (), emit (Print Msg_no_zips) st)
      else
        (case write_file env (combined_of dir) (Zip_file []) (fs st) of
           Inl e \<Rightarrow> (Inl e, st)
         | Inr t1 \<Rightarrow>
             (case zip_write_all t1 zip_paths [] of
                (Some e, es) \<Rightarrow>
                  (Inl e, st\<lparr>fs := AList.update (combined_of dir) (File (Zip_file es)) t1\<rparr>)
              | (None, es) \<Rightarrow>
                  (Inr (), emit (Print (Msg_combined_written (combined_of dir)))
                     (st\<lparr>fs := AList.update (combined_of dir) (File (Zip_file es)) t1\<rparr>)))))"

text \<open>The check of the three columns after the load: the first absent one raises.\<close>

definition column_error :: "string \<Rightarrow> error" where
  "column_error c = KeyError (''Column '' @ [CHR 0x27] @ c @ [CHR 0x27] @ '' not found in CSV.'')"

fun check_columns :: "string list \<Rightarrow> string list \<Rightarrow> error option" where
  "check_columns [] cols = None"
| "check_columns (c # cs) cols =
     (if c \<in> set cols then check_columns cs cols else Some (column_error c))"

text \<open>
  The row handed to \<^verbatim>\<open>process_gauge_row\<close>: \<^verbatim>\<open>row._asdict()\<close> when the row is a named
  tuple, \<^verbatim>\<open>dict(zip(df.columns, row))\<close> otherwise. The pairs are kept in reverse, so that
  the lookup finds the last value of a key, as in a dictionary.
\<close>

definition row_dict :: "'f env \<Rightarrow> string list \<Rightarrow> 'f cell list \<Rightarrow> (string \<times> 'f cell) list" where
  "row_dict env cols row =
     rev (zip (case itertuple_fields env cols of Some names \<Rightarrow> names | None \<Rightarrow> cols) row)"

text \<open>\<^verbatim>\<open>args.limit and count >= args.limit\<close>: a limit of 0 is false, as no limit is.\<close>

definition limit_reached :: "int option \<Rightarrow> int \<Rightarrow> bool" where
  "limit_reached l count = (case l of None \<Rightarrow> False | Some n \<Rightarrow> n \<noteq> 0 \<and> count \<ge> n)"

text \<open>The loop of \<^verbatim>\<open>main\<close> over the rows, \<open>count\<close> being the rows processed so far.\<close>

fun iterate :: "'f::{times,numeral,zero,ord} env \<Rightarrow> 'f args \<Rightarrow> (string \<times> 'f cell) list list \<Rightarrow> int
    \<Rightarrow> 'f state \<Rightarrow> (error + unit) \<times> 'f state" where
  "iterate env args [] count st = (Inr (), st)"
| "iterate env args (row # rest) count st =
     (case process_gauge_row env args row st of
        (Inl e, st1) \<Rightarrow> (Inl e, st1)
      | (Inr u, st1) \<Rightarrow>
          if limit_reached (limit args) (count + 1)
          then (Inr (), emit (Print (Msg_reached_limit (the (limit args)))) st1)
          else iterate env args rest (count + 1)
                 (if sleep_sec args > 0 then emit (Sleep (sleep_sec args)) st1 else st1))"

definition main :: "'f::{times,numeral,zero,ord} env \<Rightarrow> 'f args \<Rightarrow> 'f state
    \<Rightarrow> (error + unit) \<times> 'f state" where
  "main env args st =
     (case ensure_dir env (out_dir args) st of
        (Inl e, st1) \<Rightarrow> (Inl e, st1)
      | (Inr u, st1) \<Rightarrow>
     (case init_ee env (ee_project args) st1 of
        (Inl e, st2) \<Rightarrow> (Inl e, st2)
      | (Inr u, st2) \<Rightarrow>
     (case read_csv env (gauges_csv args) of
        Inl e \<Rightarrow> (Inl e, st2)
      | Inr df \<Rightarrow>
     (case check_columns [lat_col args, lon_col args, id_col args] (columns df) of
        Some e \<Rightarrow> (Inl e, st2)
      | None \<Rightarrow>
     (case iterate env args (map (row_dict env (columns df)) (rows df)) 0
             (st2\<lparr>combined_paths := []\<rparr>) of
        (Inl e, st3) \<Rightarrow> (Inl e, st3)
      | (Inr u, st3) \<Rightarrow>
          if export_mode args = Client
          then build_combined_zip env (combined_paths st3) (out_dir args) st3
          else (Inr (), emit (Print Msg_all_started) st3))))))"

section \<open>Notions used to state the properties\<close>

text \<open>The feature collections a log shows as queried or exported: each was built by
  \<^verbatim>\<open>get_subbasins_fc\<close>, with the buffer it was given.\<close>

fun queried :: "'f event list \<Rightarrow> 'f feature_collection list" where
  "queried [] = []"
| "queried (Get_info fc # evs) = fc # queried evs"
| "queried (Export_start fc d f # evs) = fc # queried evs"
| "queried (ev # evs) = queried evs"

text \<open>The gauges a log shows as taken up by \<^verbatim>\<open>process_gauge_row\<close>: identifier, latitude
  and longitude of each \<^verbatim>\<open>Processing gauge\<close> line.\<close>

fun processed :: "'f event list \<Rightarrow> (string \<times> 'f \<times> 'f) list" where
  "processed [] = []"
| "processed (Print (Msg_processing gid lat lon) # evs) = (gid, lat, lon) # processed evs"
| "processed (ev # evs) = processed evs"

text \<open>The gauge record of a row: its identifier, latitude and longitude, when the three
  cells are there and convert.\<close>

definition gauge_of :: "'f env \<Rightarrow> 'f args \<Rightarrow> (string \<times> 'f cell) list \<Rightarrow> (string \<times> 'f \<times> 'f) option" where
  "gauge_of env args row =
     (case get_float env row (lat_col args) of
        Inl e \<Rightarrow> None
      | Inr lat \<Rightarrow>
     (case get_float env row (lon_col args) of
        Inl e \<Rightarrow> None
      | Inr lon \<Rightarrow>
     (case get_str env row (id_col args) of
        Inl e \<Rightarrow> None
      | Inr gid \<Rightarrow> Some (gid, lat, lon))))"

text \<open>The feature set the region query returns for a row; empty when there is none.\<close>

definition feature_set :: "'f::{times,numeral} env \<Rightarrow> 'f args \<Rightarrow> (string \<times> 'f cell) list \<Rightarrow> feature list" where
  "feature_set env args row =
     (case gauge_of env args row of
        None \<Rightarrow> []
      | Some (gid, lat, lon) \<Rightarrow>
          (case get_info env (get_subbasins_fc lon lat (buffer_km args)) of
             Inl e \<Rightarrow> []
           | Inr None \<Rightarrow> []
           | Inr (Some fts) \<Rightarrow> fts))"

text \<open>The path of the per-gauge archive of a row.\<close>

definition archive_of :: "'f env \<Rightarrow> 'f args \<Rightarrow> (string \<times> 'f cell) list \<Rightarrow> string" where
  "archive_of env args row =
     (case get_str env row (id_col args) of
        Inl e \<Rightarrow> []
      | Inr gid \<Rightarrow> out_zip_of (out_dir args) gid)"

text \<open>The rows of the table as \<^verbatim>\<open>main\<close> hands them to \<^verbatim>\<open>process_gauge_row\<close>.\<close>

definition row_dicts :: "'f env \<Rightarrow> 'f dataframe \<Rightarrow> (string \<times> 'f cell) list list" where
  "row_dicts env df = map (row_dict env (columns df)) (rows df)"

text \<open>The regular files of a file system, with their contents.\<close>

definition files :: "(string \<times> node) list \<Rightarrow> (string \<times> node) list" where
  "files t = filter (\<lambda>(p, n). n \<noteq> Dir) t"

text \<open>Every feature collection of a log has the configured radius, in metres.\<close>

definition radius_ok :: "'f::{times,numeral} args \<Rightarrow> 'f event list \<Rightarrow> bool" where
  "radius_ok args evs = list_all (\<lambda>fc. fc_radius fc = buffer_km args * 1000) (queried evs)"

text \<open>The feature collections a log shows as downloaded to the client.\<close>

fun downloads :: "'f event list \<Rightarrow> 'f feature_collection list" where
  "downloads [] = []"
| "downloads (Get_info fc # evs) = fc # downloads evs"
| "downloads (ev # evs) = downloads evs"

text \<open>Whether the region query of a row returned a non-empty feature set.\<close>

definition has_features :: "'f::{times,numeral} env \<Rightarrow> 'f args \<Rightarrow> (string \<times> 'f cell) list \<Rightarrow> bool" where
  "has_features env args row = (feature_set env args row \<noteq> [])"

text \<open>The first rows under a limit, as the loop takes them up from the start: all rows
  without a limit or with the limit 0, one row at least otherwise.\<close>

definition first_rows :: "int option \<Rightarrow> 'a list \<Rightarrow> 'a list" where
  "first_rows l rs =
     (case l of None \<Rightarrow> rs | Some n \<Rightarrow> if n = 0 then rs else take (nat (max 1 n)) rs)"

text \<open>Whether a path is a regular file of a file system.\<close>

definition is_file :: "(string \<times> node) list \<Rightarrow> string \<Rightarrow> bool" where
  "is_file t p = (case map_of t p of Some (File c) \<Rightarrow> True | Some Dir \<Rightarrow> False | None \<Rightarrow> False)"

text \<open>The gauge records of the rows that have one.\<close>

definition records :: "'f env \<Rightarrow> 'f args \<Rightarrow> (string \<times> 'f cell) list list \<Rightarrow> (string \<times> 'f \<times> 'f) list" where
  "records env args rs = List.map_filter (gauge_of env args) rs"

text \<open>The rows the loop of \<^verbatim>\<open>main\<close> takes up when none raises, \<open>count\<close> rows having been
  taken up before: the test of the limit comes after the row.\<close>

fun taken :: "int option \<Rightarrow> int \<Rightarrow> 'a list \<Rightarrow> 'a list" where
  "taken l count [] = []"
| "taken l count (r # rs) =
     r # (if limit_reached l (count + 1) then [] else taken l (count + 1) rs)"

section \<open>A concrete run\<close>

text \<open>
  Two gauges in an empty file system: the buffer of the first meets three polygons, the
  buffer of the second meets none. The service answers with three polygons for every
  buffer but those at the latitude 50.
\<close>

definition ex_feature :: "string \<Rightarrow> feature" where
  "ex_feature g = \<lparr>f_geometry = Some g, f_properties = Some [(''HYBAS_ID'', g)]\<rparr>"

definition ex_df :: "real dataframe" where
  "ex_df = \<lparr>columns = [''STATION_NUMBER'', ''LATITUDE'', ''LONGITUDE''],
            rows = [[Str ''02AB'', Num 45, Num (- 80)], [Str ''02CD'', Num 50, Num (- 85)]]\<rparr>"

definition ex_env :: "real env" where
  "ex_env =
     \<lparr>ee_init_ok = (\<lambda>authenticated project. True),
      ee_auth_ok = True,
      read_csv = (\<lambda>path. Inr ex_df),
      itertuple_fields = (\<lambda>cols. Some cols),
      parse_float = (\<lambda>s. None),
      str_num = (\<lambda>x. ''0''),
      get_info = (\<lambda>fc. if fc_lat fc = 50 then Inr (Some [])
                       else Inr (Some [ex_feature ''a'', ex_feature ''b'', ex_feature ''c''])),
      shp_shape = (\<lambda>g. Inr g),
      start_task = (\<lambda>fc description folder. Inr (''T'' @ description)),
      write_fault = (\<lambda>p. None)\<rparr>"

definition ex_args :: "real args" where
  "ex_args =
     \<lparr>gauges_csv = ''g.csv'', lat_col = ''LATITUDE'', lon_col = ''LONGITUDE'',
      id_col = ''STATION_NUMBER'', buffer_km = 25, export_mode = Client, out_dir = ''outputs'',
      drive_folder = None, ee_project = None, limit = None, sleep_sec = 0\<rparr>"

definition ex_state :: "real state" where
  "ex_state = \<lparr>fs = [], log = [], combined_paths = []\<rparr>"

text \<open>The two rows of the table of the concrete run.\<close>

definition ex_row_empty :: "(string \<times> real cell) list" where
  "ex_row_empty = row_dict ex_env (columns ex_df) [Str ''02CD'', Num 50, Num (- 85)]"

definition ex_row_full :: "(string \<times> real cell) list" where
  "ex_row_full = row_dict ex_env (columns ex_df) [Str ''02AB'', Num 45, Num (- 80)]"

text \<open>A table whose latitude column has another name than the one asked for.\<close>

definition ex_df_no_lat :: "real dataframe" where
  "ex_df_no_lat = \<lparr>columns = [''STATION_NUMBER'', ''LAT'', ''LONGITUDE''],
            rows = [[Str ''02AB'', Num 45, Num (- 80)]]\<rparr>"

text \<open>A service whose query fails for the second gauge.\<close>

definition ex_env_fail :: "real env" where
  "ex_env_fail = ex_env\<lparr>get_info := (\<lambda>fc. if fc_lat fc = 50 then Inl (EEException ''quota'')
                                          else get_info ex_env fc)\<rparr>"

text \<open>A table of three gauges, the second without features, and a table of two records
  that share their identifier.\<close>

definition ex_df3 :: "real dataframe" where
  "ex_df3 = \<lparr>columns = [''STATION_NUMBER'', ''LATITUDE'', ''LONGITUDE''],
            rows = [[Str ''02AB'', Num 45, Num (- 80)], [Str ''02CD'', Num 50, Num (- 85)],
                    [Str ''02EF'', Num 47, Num (- 81)]]\<rparr>"

definition ex_env3 :: "real env" where
  "ex_env3 = ex_env\<lparr>read_csv := (\<lambda>path. Inr ex_df3)\<rparr>"

definition ex_df_dup :: "real dataframe" where
  "ex_df_dup = \<lparr>columns = [''STATION_NUMBER'', ''LATITUDE'', ''LONGITUDE''],
            rows = [[Str ''02AB'', Num 45, Num (- 80)], [Str ''02AB'', Num 46, Num (- 81)]]\<rparr>"

definition ex_env_dup :: "real env" where
  "ex_env_dup = ex_env\<lparr>read_csv := (\<lambda>path. Inr ex_df_dup)\<rparr>"




section \<open>Evaluation of the model\<close>

lemmas model_defs = main_def ensure_dir_def init_ee_def truthy_project_def makedirs_def path_exists_def
  check_columns.simps row_dict_def process_gauge_row_def get_float_def get_str_def row_get_def
  float_of_def str_of_def emit_def get_subbasins_fc_def fc_to_geodataframe_def gdf_empty_def
  write_shapefile_zip_def to_file_def shapefile_exts_def write_file_def is_dir_def parent_def
  walk_files_def remove_under_def rmdir_def under_def path_join_def basename_def layer_of_def
  out_zip_of_def combined_of_def build_combined_zip_def limit_reached_def queue_ee_drive_export_def
  DATASET_ID_def column_error_def

lemmas ex_defs = ex_env_def ex_args_def ex_state_def ex_df_def ex_feature_def

lemmas eval_simps = model_defs ex_defs AList.update.simps AList.delete_eq

lemmas spec_defs = has_features_def feature_set_def gauge_of_def archive_of_def first_rows_def
  row_dicts_def is_file_def records_def files_def

section \<open>What each function does to the log\<close>

lemma queried_append: "queried (xs @ ys) = queried xs @ queried ys"
  by (induction xs rule: queried.induct) simp_all

lemma log_emit: "log (emit ev st) = log st @ [ev]"
  by (simp add: emit_def)

lemma log_ensure_dir: "ensure_dir env p st = (r, st') \<Longrightarrow> log st' = log st"
  by (auto simp: ensure_dir_def split: prod.splits option.splits if_splits)

lemma log_write_shapefile_zip: "write_shapefile_zip env g z l st = (r, st') \<Longrightarrow> log st' = log st"
  unfolding write_shapefile_zip_def
  by (auto simp: Let_def dest!: log_ensure_dir split: prod.splits sum.splits option.splits)

lemma log_fc_to_geodataframe:
  "fc_to_geodataframe env fc st = (r, st') \<Longrightarrow> log st' = log st @ [Get_info fc]"
  by (auto simp: fc_to_geodataframe_def Let_def log_emit split: sum.splits if_splits)

lemma log_queue:
  "queue_ee_drive_export env fc d f st = (r, st') \<Longrightarrow> queried (log st') = queried (log st) @ [fc]"
  by (auto simp: queue_ee_drive_export_def log_emit queried_append split: sum.splits)

lemma radius_ok_process:
  assumes "radius_ok args (log st)" and "process_gauge_row env args row st = (r, st')"
  shows "radius_ok args (log st')"
proof -
  have r: "fc_radius (get_subbasins_fc lon lat (buffer_km args)) = buffer_km args * 1000" for lon lat
    by (simp add: get_subbasins_fc_def)
  show ?thesis
    using assms
    unfolding process_gauge_row_def radius_ok_def
    by (auto simp: log_emit queried_append r split: sum.splits prod.splits if_splits
        dest!: log_write_shapefile_zip log_fc_to_geodataframe log_queue)
qed

lemma radius_ok_iterate:
  "radius_ok args (log st) \<Longrightarrow> iterate env args rs c st = (r, st') \<Longrightarrow> radius_ok args (log st')"
proof (induction rs arbitrary: c st)
  case Nil
  then show ?case by simp
next
  case (Cons row rest)
  obtain r1 st1 where p: "process_gauge_row env args row st = (r1, st1)"
    by (cases "process_gauge_row env args row st")
  have ok1: "radius_ok args (log st1)"
    using Cons.prems(1) p by (rule radius_ok_process)
  have ok2: "radius_ok args (log (emit ev st1))" if "queried [ev] = []" for ev
    using ok1 that by (simp add: radius_ok_def log_emit queried_append)
  show ?case
  proof (cases r1)
    case (Inl e)
    with Cons.prems(2) p ok1 show ?thesis by simp
  next
    case (Inr u)
    show ?thesis
    proof (cases "limit_reached (limit args) (c + 1)")
      case True
      with Cons.prems(2) p Inr ok2 show ?thesis by auto
    next
      case False
      with Cons.prems(2) p Inr
      have "iterate env args rest (c + 1)
              (if sleep_sec args > 0 then emit (Sleep (sleep_sec args)) st1 else st1) = (r, st')"
        by simp
      moreover have "radius_ok args (log (if sleep_sec args > 0 then emit (Sleep (sleep_sec args)) st1 else st1))"
        using ok1 ok2 by simp
      ultimately show ?thesis
        using Cons.IH by blast
    qed
  qed
qed

lemma log_init_ee: "init_ee env p st = (r, st') \<Longrightarrow> queried (log st') = queried (log st)"
  by (auto simp: init_ee_def Let_def log_emit queried_append split: if_splits)

lemma log_build_combined_zip:
  "build_combined_zip env ps d st = (r, st') \<Longrightarrow> queried (log st') = queried (log st)"
  by (auto simp: build_combined_zip_def log_emit queried_append split: if_splits sum.splits prod.splits option.splits)

lemma processed_append: "processed (xs @ ys) = processed xs @ processed ys"
  by (induction xs rule: processed.induct) simp_all

lemma check_columns_missing:
  "\<not> set cs \<subseteq> set cols \<Longrightarrow> \<exists>c \<in> set cs. c \<notin> set cols \<and> check_columns cs cols = Some (column_error c)"
  by (induction cs) auto

section \<open>The paths of \<^verbatim>\<open>main\<close>\<close>

lemma main_elim:
  assumes "main env args st = (r, st')"
  obtains
    (dir_fail) e where "ensure_dir env (out_dir args) st = (Inl e, st')" "r = Inl e"
  | (init_fail) u s1 e where "ensure_dir env (out_dir args) st = (Inr u, s1)"
      "init_ee env (ee_project args) s1 = (Inl e, st')" "r = Inl e"
  | (read_fail) u s1 s2 e where "ensure_dir env (out_dir args) st = (Inr u, s1)"
      "init_ee env (ee_project args) s1 = (Inr u, s2)"
      "read_csv env (gauges_csv args) = Inl e" "r = Inl e" "st' = s2"
  | (cols_fail) u s1 s2 df e where "ensure_dir env (out_dir args) st = (Inr u, s1)"
      "init_ee env (ee_project args) s1 = (Inr u, s2)"
      "read_csv env (gauges_csv args) = Inr df"
      "check_columns [lat_col args, lon_col args, id_col args] (columns df) = Some e"
      "r = Inl e" "st' = s2"
  | (iter_fail) u s1 s2 df e where "ensure_dir env (out_dir args) st = (Inr u, s1)"
      "init_ee env (ee_project args) s1 = (Inr u, s2)"
      "read_csv env (gauges_csv args) = Inr df"
      "check_columns [lat_col args, lon_col args, id_col args] (columns df) = None"
      "iterate env args (map (row_dict env (columns df)) (rows df)) 0
         (s2\<lparr>combined_paths := []\<rparr>) = (Inl e, st')"
      "r = Inl e"
  | (client) u s1 s2 df s3 where "ensure_dir env (out_dir args) st = (Inr u, s1)"
      "init_ee env (ee_project args) s1 = (Inr u, s2)"
      "read_csv env (gauges_csv args) = Inr df"
      "check_columns [lat_col args, lon_col args, id_col args] (columns df) = None"
      "iterate env args (map (row_dict env (columns df)) (rows df)) 0
         (s2\<lparr>combined_paths := []\<rparr>) = (Inr u, s3)"
      "export_mode args = Client"
      "build_combined_zip env (combined_paths s3) (out_dir args) s3 = (r, st')"
  | (drive) u s1 s2 df s3 where "ensure_dir env (out_dir args) st = (Inr u, s1)"
      "init_ee env (ee_project args) s1 = (Inr u, s2)"
      "read_csv env (gauges_csv args) = Inr df"
      "check_columns [lat_col args, lon_col args, id_col args] (columns df) = None"
      "iterate env args (map (row_dict env (columns df)) (rows df)) 0
         (s2\<lparr>combined_paths := []\<rparr>) = (Inr u, s3)"
      "export_mode args \<noteq> Client"
      "r = Inr ()" "st' = emit (Print Msg_all_started) s3"
proof -
  obtain r1 s1 where a: "ensure_dir env (out_dir args) st = (r1, s1)"
    by (cases "ensure_dir env (out_dir args) st")
  obtain r2 s2 where b: "init_ee env (ee_project args) s1 = (r2, s2)"
    by (cases "init_ee env (ee_project args) s1")
  show thesis
  proof (cases r1)
    case (Inl e)
    with assms a dir_fail show thesis by (auto simp: main_def)
  next
    case r1: (Inr u1)
    show thesis
    proof (cases r2)
      case (Inl e)
      with assms a b r1 init_fail show thesis by (auto simp: main_def)
    next
      case r2: (Inr u2)
      show thesis
      proof (cases "read_csv env (gauges_csv args)")
        case (Inl e)
        with assms a b r1 r2 read_fail show thesis by (auto simp: main_def)
      next
        case df: (Inr df)
        show thesis
        proof (cases "check_columns [lat_col args, lon_col args, id_col args] (columns df)")
          case (Some e)
          with assms a b r1 r2 df cols_fail show thesis by (auto simp: main_def)
        next
          case None
          obtain r3 s3 where c: "iterate env args (map (row_dict env (columns df)) (rows df)) 0
              (s2\<lparr>combined_paths := []\<rparr>) = (r3, s3)"
            by (cases "iterate env args (map (row_dict env (columns df)) (rows df)) 0
              (s2\<lparr>combined_paths := []\<rparr>)")
          show thesis
          proof (cases r3)
            case (Inl e)
            with assms a b r1 r2 df None c iter_fail show thesis by (auto simp: main_def)
          next
            case r3: (Inr u3)
            show thesis
            proof (cases "export_mode args = Client")
              case True
              with assms a b r1 r2 df None c r3 client show thesis by (auto simp: main_def)
            next
              case False
              have a': "ensure_dir env (out_dir args) st = (Inr (), s1)" using a r1 by simp
              have b': "init_ee env (ee_project args) s1 = (Inr (), s2)" using b r2 by simp
              have c': "iterate env args (map (row_dict env (columns df)) (rows df)) 0
                  (s2\<lparr>combined_paths := []\<rparr>) = (Inr (), s3)" using c r3 by simp
              have "r = Inr () \<and> st' = emit (Print Msg_all_started) s3"
                using assms a' b' df None c' False by (simp add: main_def)
              then show thesis using drive [OF a' b' df None c' False] by blast
            qed
          qed
        qed
      qed
    qed
  qed
qed

section \<open>What each function does to the files\<close>

lemma files_update_Dir: "map_of t d = None \<Longrightarrow> files (AList.update d Dir t) = files t"
  by (induction t) (auto simp: files_def split: if_splits)

lemma files_mk_all: "mk_all env ds t = (r, t') \<Longrightarrow> files t' = files t"
proof (induction ds arbitrary: t)
  case Nil
  then show ?case by simp
next
  case (Cons d ds)
  then show ?case
    by (auto simp: files_update_Dir split: option.splits node.splits)
qed

lemma files_ensure_dir: "ensure_dir env p st = (r, st') \<Longrightarrow> files (fs st') = files (fs st)"
  by (auto simp: ensure_dir_def makedirs_def split: if_splits prod.splits option.splits
      dest: files_mk_all)

lemma fs_init_ee: "init_ee env p st = (r, st') \<Longrightarrow> fs st' = fs st"
  by (auto simp: init_ee_def Let_def emit_def split: if_splits)

lemma processed_init_ee: "init_ee env p st = (r, st') \<Longrightarrow> processed (log st') = processed (log st)"
  by (auto simp: init_ee_def Let_def log_emit processed_append split: if_splits)

lemma frame_process_drive:
  "export_mode args \<noteq> Client \<Longrightarrow> process_gauge_row env args row st = (r, st') \<Longrightarrow>
     fs st' = fs st \<and> combined_paths st' = combined_paths st"
  by (auto simp: process_gauge_row_def queue_ee_drive_export_def emit_def
      split: sum.splits if_splits)

lemma frame_iterate_drive:
  "export_mode args \<noteq> Client \<Longrightarrow> iterate env args rs c st = (r, st') \<Longrightarrow>
     fs st' = fs st \<and> combined_paths st' = combined_paths st"
proof (induction rs arbitrary: c st)
  case Nil
  then show ?case by simp
next
  case (Cons row rest)
  obtain r1 st1 where p: "process_gauge_row env args row st = (r1, st1)"
    by (cases "process_gauge_row env args row st")
  from frame_process_drive [OF Cons.prems(1) p]
  have f: "fs st1 = fs st" "combined_paths st1 = combined_paths st" by simp_all
  show ?case
  proof (cases r1)
    case (Inl e)
    with Cons.prems(2) p f show ?thesis by simp
  next
    case (Inr u)
    show ?thesis
    proof (cases "limit_reached (limit args) (c + 1)")
      case True
      with Cons.prems(2) p Inr f show ?thesis by (auto simp: emit_def)
    next
      case False
      let ?s = "if sleep_sec args > 0 then emit (Sleep (sleep_sec args)) st1 else st1"
      from False Cons.prems(2) p Inr
      have "iterate env args rest (c + 1) ?s = (r, st')" by simp
      from Cons.IH [OF Cons.prems(1) this] f show ?thesis by (simp add: emit_def)
    qed
  qed
qed

lemma gauge_of_Some:
  "gauge_of env args row = Some (gid, lat, lon) \<longleftrightarrow>
     get_float env row (lat_col args) = Inr lat \<and> get_float env row (lon_col args) = Inr lon \<and>
     get_str env row (id_col args) = Inr gid"
  by (auto simp: gauge_of_def split: sum.splits)

lemma iterate_step_ok:
  assumes "process_gauge_row env args row st = (Inr (), st1)"
  shows "iterate env args (row # rest) c st =
     (if limit_reached (limit args) (c + 1)
      then (Inr (), emit (Print (Msg_reached_limit (the (limit args)))) st1)
      else iterate env args rest (c + 1)
             (if sleep_sec args > 0 then emit (Sleep (sleep_sec args)) st1 else st1))"
  using assms by simp

lemma processed_process:
  assumes "process_gauge_row env args row st = (r, st')"
  shows "processed (log st') = processed (log st) @ records env args [row]"
proof (cases "gauge_of env args row")
  case None
  then have "st' = st"
    using assms by (auto simp: gauge_of_def process_gauge_row_def split: sum.splits)
  with None show ?thesis by (simp add: records_def)
next
  case (Some t)
  obtain gid lat lon where t: "t = (gid, lat, lon)" by (cases t)
  have g: "get_float env row (lat_col args) = Inr lat" "get_float env row (lon_col args) = Inr lon"
    "get_str env row (id_col args) = Inr gid"
    using Some t by (simp_all add: gauge_of_Some)
  have q: "processed (log s') = processed (log s)"
    if "queue_ee_drive_export env fc d f s = (r, s')" for fc d f s s' r
    using that by (auto simp: queue_ee_drive_export_def log_emit processed_append split: sum.splits)
  have "processed (log st') = processed (log st) @ [(gid, lat, lon)]"
    using assms g unfolding process_gauge_row_def
    by (auto simp: log_emit processed_append split: sum.splits prod.splits if_splits
        dest!: log_write_shapefile_zip log_fc_to_geodataframe q)
  with Some t show ?thesis by (simp add: records_def)
qed

lemma records_append: "records env args (xs @ ys) = records env args xs @ records env args ys"
  by (simp add: records_def List.map_filter_def)

lemma process_ok_gauge:
  "process_gauge_row env args row st = (Inr u, st') \<Longrightarrow> gauge_of env args row \<noteq> None"
  by (auto simp: gauge_of_def process_gauge_row_def split: sum.splits)

lemma iterate_ok_processed:
  "iterate env args rs c st = (Inr u, st') \<Longrightarrow>
     processed (log st') = processed (log st) @ records env args (taken (limit args) c rs) \<and>
     list_all (\<lambda>r. gauge_of env args r \<noteq> None) (taken (limit args) c rs)"
proof (induction rs arbitrary: c st)
  case Nil
  then show ?case by (simp add: records_def)
next
  case (Cons row rest)
  obtain r1 st1 where p: "process_gauge_row env args row st = (r1, st1)"
    by (cases "process_gauge_row env args row st")
  with Cons.prems obtain u1 where r1: "r1 = Inr u1"
    by (cases r1) auto
  note pp = processed_process [OF p]
  note g = process_ok_gauge [OF p [unfolded r1]]
  show ?case
  proof (cases "limit_reached (limit args) (c + 1)")
    case True
    with Cons.prems p r1 have "st' = emit (Print (Msg_reached_limit (the (limit args)))) st1"
      by simp
    with True pp g show ?thesis by (simp add: log_emit processed_append)
  next
    case False
    let ?s = "if sleep_sec args > 0 then emit (Sleep (sleep_sec args)) st1 else st1"
    from False Cons.prems p r1
    have "iterate env args rest (c + 1) ?s = (Inr u, st')" by simp
    from Cons.IH [OF this] pp g False show ?thesis
      using records_append [of env args "[row]" "taken (limit args) (c + 1) rest"]
      by (simp add: log_emit processed_append)
  qed
qed

lemma iterate_any_processed:
  "iterate env args rs c st = (r, st') \<Longrightarrow>
     \<exists>k \<le> length (taken (limit args) c rs).
       processed (log st') = processed (log st) @ records env args (take k (taken (limit args) c rs))"
proof (induction rs arbitrary: c st)
  case Nil
  then show ?case by (simp add: records_def)
next
  case (Cons row rest)
  obtain r1 st1 where p: "process_gauge_row env args row st = (r1, st1)"
    by (cases "process_gauge_row env args row st")
  note pp = processed_process [OF p]
  show ?case
  proof (cases r1)
    case (Inl e)
    with Cons.prems p have "st' = st1" by simp
    with pp have "processed (log st') = processed (log st) @
        records env args (take 1 (taken (limit args) c (row # rest)))"
      by simp
    then show ?thesis
      by (intro exI [of _ 1]) simp
  next
    case (Inr u1)
    show ?thesis
    proof (cases "limit_reached (limit args) (c + 1)")
      case True
      with Cons.prems p Inr have "st' = emit (Print (Msg_reached_limit (the (limit args)))) st1"
        by auto
      with True pp have "processed (log st') = processed (log st) @
          records env args (take 1 (taken (limit args) c (row # rest)))"
        by (simp add: log_emit processed_append)
      then show ?thesis
        by (intro exI [of _ 1]) simp
    next
      case False
      let ?s = "if sleep_sec args > 0 then emit (Sleep (sleep_sec args)) st1 else st1"
      from False Cons.prems p Inr
      have "iterate env args rest (c + 1) ?s = (r, st')" by simp
      from Cons.IH [OF this] obtain k where k: "k \<le> length (taken (limit args) (c + 1) rest)"
        "processed (log st') = processed (log ?s) @
           records env args (take k (taken (limit args) (c + 1) rest))"
        by blast
      have "processed (log st') = processed (log st) @
          records env args (take (Suc k) (taken (limit args) c (row # rest)))"
        using k(2) pp False
          records_append [of env args "[row]" "take k (taken (limit args) (c + 1) rest)"]
        by (simp add: log_emit processed_append)
      with k(1) False show ?thesis
        by (intro exI [of _ "Suc k"]) simp
    qed
  qed
qed

lemma taken_limit:
  "0 \<le> c \<Longrightarrow> c < n \<Longrightarrow> taken (Some n) c rs = take (nat (n - c)) rs"
proof (induction rs arbitrary: c)
  case Nil
  then show ?case by simp
next
  case (Cons r rs)
  show ?case
  proof (cases "n \<le> c + 1")
    case True
    with Cons.prems have "n - c = 1" by simp
    with True Cons.prems show ?thesis by (simp add: limit_reached_def)
  next
    case False
    then have "c + 1 < n" "0 \<le> c + 1" using Cons.prems by simp_all
    moreover have "nat (n - c) = Suc (nat (n - (c + 1)))"
      using False by simp
    ultimately show ?thesis
      using Cons.IH [of "c + 1"] False by (simp add: limit_reached_def)
  qed
qed

lemma taken_no_limit: "taken None c rs = rs" "taken (Some 0) c rs = rs"
  by (induction rs arbitrary: c) (simp_all add: limit_reached_def)

lemma map_Some_records:
  "list_all (\<lambda>r. gauge_of env args r \<noteq> None) rs \<Longrightarrow>
     map Some (records env args rs) = map (gauge_of env args) rs"
  by (induction rs) (auto simp: records_def)

lemma processed_build_combined_zip:
  "build_combined_zip env ps d st = (r, st') \<Longrightarrow> processed (log st') = processed (log st)"
  by (auto simp: build_combined_zip_def log_emit processed_append
      split: if_splits sum.splits prod.splits option.splits)

lemma processed_setup:
  assumes "ensure_dir env (out_dir args) st = (r1, s1)"
  shows "processed (log s1) = processed (log st)"
    and "init_ee env (ee_project args) s1 = (r2, s2) \<Longrightarrow> processed (log s2) = processed (log st)"
  using assms by (auto dest!: log_ensure_dir processed_init_ee)

lemma substep_raises:
  assumes "gauge_of env args row = Some (gid, lat, lon)"
  shows "export_mode args = Client \<Longrightarrow>
           fc_to_geodataframe env (get_subbasins_fc lon lat (buffer_km args))
             (emit (Print (Msg_processing gid lat lon)) st) = (Inl e, s') \<Longrightarrow>
           process_gauge_row env args row st = (Inl e, s')"
    and "export_mode args = Client \<Longrightarrow>
           fc_to_geodataframe env (get_subbasins_fc lon lat (buffer_km args))
             (emit (Print (Msg_processing gid lat lon)) st) = (Inr g, s) \<Longrightarrow> \<not> gdf_empty g \<Longrightarrow>
           write_shapefile_zip env g (out_zip_of (out_dir args) gid) (layer_of gid) s = (Inl e, s') \<Longrightarrow>
           process_gauge_row env args row st = (Inl e, s')"
    and "export_mode args = Ee_drive \<Longrightarrow>
           queue_ee_drive_export env (get_subbasins_fc lon lat (buffer_km args)) (layer_of gid)
             (drive_folder args) (emit (Print (Msg_processing gid lat lon)) st) = (Inl e, s') \<Longrightarrow>
           process_gauge_row env args row st = (Inl e, s')"
  using assms by (simp_all add: gauge_of_Some process_gauge_row_def)

lemma main_iterate_raises:
  assumes "ensure_dir env (out_dir args) st = (Inr (), s1)"
    and "init_ee env (ee_project args) s1 = (Inr (), s2)"
    and "read_csv env (gauges_csv args) = Inr df"
    and "check_columns [lat_col args, lon_col args, id_col args] (columns df) = None"
    and "iterate env args (row_dicts env df) 0 (s2\<lparr>combined_paths := []\<rparr>) = (Inl e, st')"
  shows "main env args st = (Inl e, st')"
  using assms by (simp add: main_def row_dicts_def)

lemma iterate_raise_origin:
  "iterate env args rs c s = (Inl e, s') \<Longrightarrow>
     \<exists>pre row post sp. rs = pre @ row # post \<and> process_gauge_row env args row sp = (Inl e, s')"
proof (induction rs arbitrary: c s)
  case Nil
  then show ?case by simp
next
  case (Cons row rest)
  obtain r1 st1 where p: "process_gauge_row env args row s = (r1, st1)"
    by (cases "process_gauge_row env args row s")
  show ?case
  proof (cases r1)
    case (Inl e1)
    with Cons.prems p have "process_gauge_row env args row s = (Inl e, s')" by simp
    then show ?thesis by (metis append_Nil)
  next
    case (Inr u)
    with Cons.prems p have nl: "\<not> limit_reached (limit args) (c + 1)"
      by (auto split: if_splits)
    let ?s = "if sleep_sec args > 0 then emit (Sleep (sleep_sec args)) st1 else st1"
    from nl Cons.prems p Inr have "iterate env args rest (c + 1) ?s = (Inl e, s')" by simp
    from Cons.IH [OF this] obtain pre r post sp where
      "rest = pre @ r # post" "process_gauge_row env args r sp = (Inl e, s')"
      by blast
    then show ?thesis by (metis append_Cons)
  qed
qed

lemma taken_first_rows: "taken l 0 rs = first_rows l rs"
proof (cases l)
  case None
  then show ?thesis by (simp add: first_rows_def taken_no_limit)
next
  case (Some n)
  show ?thesis
  proof (cases "n \<le> 0")
    case True
    show ?thesis
    proof (cases "n = 0")
      case True
      with Some show ?thesis by (simp add: first_rows_def taken_no_limit)
    next
      case False
      with True have "limit_reached (Some n) 1" by (simp add: limit_reached_def)
      with Some True False show ?thesis
        by (cases rs) (simp_all add: first_rows_def max_def)
    qed
  next
    case False
    with Some taken_limit [of 0 n rs] show ?thesis
      by (simp add: first_rows_def max_def)
  qed
qed

lemma paths_ensure_dir: "ensure_dir env p st = (r, st') \<Longrightarrow> combined_paths st' = combined_paths st"
  by (auto simp: ensure_dir_def split: prod.splits option.splits if_splits)

lemma paths_write_shapefile_zip:
  "write_shapefile_zip env g z l st = (r, st') \<Longrightarrow> combined_paths st' = combined_paths st"
  unfolding write_shapefile_zip_def
  by (auto simp: Let_def dest!: paths_ensure_dir split: prod.splits sum.splits option.splits)

lemma frame_fc_to_geodataframe:
  "fc_to_geodataframe env fc st = (r, st') \<Longrightarrow>
     combined_paths st' = combined_paths st \<and> fs st' = fs st"
  by (auto simp: fc_to_geodataframe_def Let_def emit_def split: sum.splits if_splits)

lemma collect_feats_length:
  "collect_feats env fts geoms props = Inr g \<Longrightarrow> length (gdf_geoms g) = length geoms + length fts"
  by (induction fts arbitrary: geoms props) (auto split: option.splits sum.splits)

lemma fc_to_geodataframe_empty:
  assumes "fc_to_geodataframe env fc st = (Inr g, st')"
  shows "gdf_empty g \<longleftrightarrow> (case get_info env fc of Inl e \<Rightarrow> True | Inr None \<Rightarrow> True | Inr (Some fts) \<Rightarrow> fts = [])"
  using assms
  by (auto simp: fc_to_geodataframe_def Let_def gdf_empty_def
      split: sum.splits if_splits option.splits dest!: collect_feats_length)

lemma paths_process_raise:
  "process_gauge_row env args row st = (Inl e, st') \<Longrightarrow> combined_paths st' = combined_paths st"
  unfolding process_gauge_row_def
  by (auto simp: emit_def queue_ee_drive_export_def split: sum.splits prod.splits if_splits
      dest!: paths_write_shapefile_zip frame_fc_to_geodataframe)

lemma paths_process_ok:
  assumes "export_mode args = Client" and "process_gauge_row env args row st = (Inr u, st')"
  shows "combined_paths st' =
           combined_paths st @ (if has_features env args row then [archive_of env args row] else [])"
proof -
  from assms(2) obtain gid lat lon where g: "gauge_of env args row = Some (gid, lat, lon)"
    using process_ok_gauge by fastforce
  then have gs: "get_float env row (lat_col args) = Inr lat" "get_float env row (lon_col args) = Inr lon"
    "get_str env row (id_col args) = Inr gid"
    by (simp_all add: gauge_of_Some)
  let ?fc = "get_subbasins_fc lon lat (buffer_km args)"
  let ?s0 = "emit (Print (Msg_processing gid lat lon)) st"
  obtain r1 s1 where f: "fc_to_geodataframe env ?fc ?s0 = (r1, s1)"
    by (cases "fc_to_geodataframe env ?fc ?s0")
  with assms gs obtain gdf where r1: "r1 = Inr gdf"
    by (cases r1) (auto simp: process_gauge_row_def)
  note e = fc_to_geodataframe_empty [OF f [unfolded r1]]
  have hf: "has_features env args row \<longleftrightarrow> \<not> gdf_empty gdf"
    using e g by (auto simp: has_features_def feature_set_def split: sum.splits option.splits)
  have p1: "combined_paths s1 = combined_paths st"
    using f by (auto dest!: frame_fc_to_geodataframe simp: emit_def)
  have a: "archive_of env args row = out_zip_of (out_dir args) gid"
    using gs by (simp add: archive_of_def)
  show ?thesis
  proof (cases "gdf_empty gdf")
    case True
    with assms gs f r1 have "st' = emit (Print (Msg_no_subbasins gid)) s1"
      by (simp add: process_gauge_row_def)
    with True hf p1 show ?thesis by (simp add: emit_def)
  next
    case False
    obtain r2 s2 where w: "write_shapefile_zip env gdf (out_zip_of (out_dir args) gid) (layer_of gid) s1 = (r2, s2)"
      by (cases "write_shapefile_zip env gdf (out_zip_of (out_dir args) gid) (layer_of gid) s1")
    with assms gs f r1 False obtain u2 where r2: "r2 = Inr u2"
      by (cases r2) (auto simp: process_gauge_row_def)
    from assms gs f r1 False w r2
    have "st' = emit (Print (Msg_wrote (out_zip_of (out_dir args) gid)))
                 (s2\<lparr>combined_paths := combined_paths s2 @ [out_zip_of (out_dir args) gid]\<rparr>)"
      by (simp add: process_gauge_row_def)
    moreover have "combined_paths s2 = combined_paths s1"
      using w by (rule paths_write_shapefile_zip)
    ultimately show ?thesis using False hf p1 a by (simp add: emit_def)
  qed
qed

lemma iterate_ok_paths:
  assumes "export_mode args = Client"
  shows "iterate env args rs c st = (Inr u, st') \<Longrightarrow>
     combined_paths st' = combined_paths st @
       map (archive_of env args) (filter (has_features env args) (taken (limit args) c rs))"
proof (induction rs arbitrary: c st)
  case Nil
  then show ?case by simp
next
  case (Cons row rest)
  obtain r1 st1 where p: "process_gauge_row env args row st = (r1, st1)"
    by (cases "process_gauge_row env args row st")
  with Cons.prems obtain u1 where r1: "r1 = Inr u1"
    by (cases r1) auto
  note pp = paths_process_ok [OF assms p [unfolded r1]]
  show ?case
  proof (cases "limit_reached (limit args) (c + 1)")
    case True
    with Cons.prems p r1 have "st' = emit (Print (Msg_reached_limit (the (limit args)))) st1"
      by simp
    with True pp show ?thesis by (simp add: emit_def)
  next
    case False
    let ?s = "if sleep_sec args > 0 then emit (Sleep (sleep_sec args)) st1 else st1"
    from False Cons.prems p r1
    have "iterate env args rest (c + 1) ?s = (Inr u, st')" by simp
    from Cons.IH [OF this] pp False show ?thesis
      by (simp add: emit_def)
  qed
qed

lemma iterate_any_paths:
  assumes "export_mode args = Client"
  shows "iterate env args rs c st = (r, st') \<Longrightarrow>
     \<exists>k \<le> length rs. combined_paths st' = combined_paths st @
       map (archive_of env args) (filter (has_features env args) (take k rs))"
proof (induction rs arbitrary: c st)
  case Nil
  then show ?case by simp
next
  case (Cons row rest)
  obtain r1 st1 where p: "process_gauge_row env args row st = (r1, st1)"
    by (cases "process_gauge_row env args row st")
  show ?case
  proof (cases r1)
    case (Inl e)
    with Cons.prems p have "st' = st1" by simp
    with p Inl have "combined_paths st' = combined_paths st"
      by (auto dest: paths_process_raise)
    then show ?thesis by (intro exI [of _ 0]) simp
  next
    case (Inr u1)
    note pp = paths_process_ok [OF assms p [unfolded Inr]]
    show ?thesis
    proof (cases "limit_reached (limit args) (c + 1)")
      case True
      with Cons.prems p Inr have "st' = emit (Print (Msg_reached_limit (the (limit args)))) st1"
        by auto
      with pp have "combined_paths st' = combined_paths st @
          map (archive_of env args) (filter (has_features env args) (take 1 (row # rest)))"
        by (simp add: emit_def)
      then show ?thesis by (intro exI [of _ 1]) simp
    next
      case False
      let ?s = "if sleep_sec args > 0 then emit (Sleep (sleep_sec args)) st1 else st1"
      from False Cons.prems p Inr
      have "iterate env args rest (c + 1) ?s = (r, st')" by simp
      from Cons.IH [OF this] obtain k where k: "k \<le> length rest"
        "combined_paths st' = combined_paths ?s @
           map (archive_of env args) (filter (has_features env args) (take k rest))"
        by blast
      have "combined_paths st' = combined_paths st @
          map (archive_of env args) (filter (has_features env args) (take (Suc k) (row # rest)))"
        using k(2) pp by (simp add: emit_def)
      with k(1) show ?thesis by (intro exI [of _ "Suc k"]) simp
    qed
  qed
qed

lemma zip_write_all_entries:
  "zip_write_all t ps acc = (None, es) \<Longrightarrow>
     length es = length acc + length ps \<and> take (length acc) es = acc \<and>
     list_all2 (\<lambda>e p. fst e = basename p \<or> fst e = basename p @ ''/'') (drop (length acc) es) ps \<and>
     (list_all (is_file t) ps \<longrightarrow> map fst (drop (length acc) es) = map basename ps)"
proof (induction ps arbitrary: acc)
  case Nil
  then show ?case by simp
next
  case (Cons p ps)
  show ?case
  proof (cases "map_of t p")
    case None
    with Cons.prems show ?thesis by simp
  next
    case (Some n)
    show ?thesis
    proof (cases n)
      case Dir
      with Some Cons.prems have "zip_write_all t ps (acc @ [(basename p @ ''/'', Raw [])]) = (None, es)"
        by simp
      from Cons.IH [OF this] Some Dir show ?thesis
        by (auto simp: is_file_def take_Suc_conv_app_nth Cons_nth_drop_Suc [symmetric]
            dest: arg_cong [where f = "\<lambda>xs. xs ! length acc"])
    next
      case (File c)
      with Some Cons.prems have "zip_write_all t ps (acc @ [(basename p, c)]) = (None, es)"
        by simp
      from Cons.IH [OF this] Some File show ?thesis
        by (auto simp: is_file_def take_Suc_conv_app_nth Cons_nth_drop_Suc [symmetric]
            dest: arg_cong [where f = "\<lambda>xs. xs ! length acc"])
    qed
  qed
qed

lemma is_file_update_File:
  "is_file (AList.update k (File c) t) p \<longleftrightarrow> p = k \<or> is_file t p"
  by (simp add: is_file_def update_conv')

lemma build_combined_zip_entries:
  assumes "build_combined_zip env ps d st = (Inr u, st')" and "ps \<noteq> []"
  shows "\<exists>es. map_of (fs st') (combined_of d) = Some (File (Zip_file es)) \<and>
           length es = length ps \<and>
           list_all2 (\<lambda>e p. fst e = basename p \<or> fst e = basename p @ ''/'') es ps \<and>
           (list_all (is_file (fs st')) ps \<longrightarrow> map fst es = map basename ps)"
proof -
  from assms obtain t1 where t1: "write_file env (combined_of d) (Zip_file []) (fs st) = Inr t1"
    by (auto simp: build_combined_zip_def split: sum.splits)
  then have t1u: "t1 = AList.update (combined_of d) (File (Zip_file [])) (fs st)"
    by (auto simp: write_file_def split: option.splits if_splits)
  from assms t1 obtain es where es: "zip_write_all t1 ps [] = (None, es)"
    and st': "fs st' = AList.update (combined_of d) (File (Zip_file es)) t1"
    by (auto simp: build_combined_zip_def emit_def split: prod.splits option.splits)
  have same: "is_file (fs st') p = is_file t1 p" for p
    unfolding st' t1u by (auto simp: is_file_update_File)
  from zip_write_all_entries [OF es] same st' show ?thesis
    by (auto simp: update_conv' list_all_iff)
qed

lemma paths_build_combined_zip:
  "build_combined_zip env ps d st = (r, st') \<Longrightarrow> combined_paths st' = combined_paths st"
  by (auto simp: build_combined_zip_def emit_def split: if_splits sum.splits prod.splits option.splits)

lemma fs_process_ok_no_features:
  assumes "export_mode args = Client" and "process_gauge_row env args row st = (Inr u, st')"
    and "\<not> has_features env args row"
  shows "fs st' = fs st"
proof -
  from assms(2) obtain gid lat lon where g: "gauge_of env args row = Some (gid, lat, lon)"
    using process_ok_gauge by fastforce
  then have gs: "get_float env row (lat_col args) = Inr lat" "get_float env row (lon_col args) = Inr lon"
    "get_str env row (id_col args) = Inr gid"
    by (simp_all add: gauge_of_Some)
  let ?fc = "get_subbasins_fc lon lat (buffer_km args)"
  let ?s0 = "emit (Print (Msg_processing gid lat lon)) st"
  obtain r1 s1 where f: "fc_to_geodataframe env ?fc ?s0 = (r1, s1)"
    by (cases "fc_to_geodataframe env ?fc ?s0")
  with assms gs obtain gdf where r1: "r1 = Inr gdf"
    by (cases r1) (auto simp: process_gauge_row_def)
  note e = fc_to_geodataframe_empty [OF f [unfolded r1]]
  have "gdf_empty gdf"
    using e g assms(3) by (auto simp: has_features_def feature_set_def split: sum.splits option.splits)
  with assms gs f r1 have "st' = emit (Print (Msg_no_subbasins gid)) s1"
    by (simp add: process_gauge_row_def)
  moreover have "fs s1 = fs st"
    using f by (auto dest!: frame_fc_to_geodataframe simp: emit_def)
  ultimately show ?thesis by (simp add: emit_def)
qed

lemma iterate_ok_no_features:
  assumes "export_mode args = Client"
  shows "iterate env args rs c st = (Inr u, st') \<Longrightarrow>
     filter (has_features env args) (taken (limit args) c rs) = [] \<Longrightarrow> fs st' = fs st"
proof (induction rs arbitrary: c st)
  case Nil
  then show ?case by simp
next
  case (Cons row rest)
  obtain r1 st1 where p: "process_gauge_row env args row st = (r1, st1)"
    by (cases "process_gauge_row env args row st")
  with Cons.prems obtain u1 where r1: "r1 = Inr u1"
    by (cases r1) auto
  from Cons.prems(2) have nf: "\<not> has_features env args row"
    by (auto split: if_splits)
  note f1 = fs_process_ok_no_features [OF assms p [unfolded r1] nf]
  show ?case
  proof (cases "limit_reached (limit args) (c + 1)")
    case True
    with Cons.prems p r1 have "st' = emit (Print (Msg_reached_limit (the (limit args)))) st1"
      by simp
    with f1 show ?thesis by (simp add: emit_def)
  next
    case False
    let ?s = "if sleep_sec args > 0 then emit (Sleep (sleep_sec args)) st1 else st1"
    from False Cons.prems p r1
    have "iterate env args rest (c + 1) ?s = (Inr u, st')" by simp
    moreover from False Cons.prems(2) nf
    have "filter (has_features env args) (taken (limit args) (c + 1) rest) = []" by simp
    ultimately have "fs st' = fs ?s" by (rule Cons.IH)
    with f1 show ?thesis by (simp add: emit_def)
  qed
qed

lemma main_client_ok:
  assumes "export_mode args = Client" and "read_csv env (gauges_csv args) = Inr df"
    and "main env args st = (Inr (), st')"
  obtains s1 s2 s3 where "ensure_dir env (out_dir args) st = (Inr (), s1)"
    "init_ee env (ee_project args) s1 = (Inr (), s2)"
    "iterate env args (row_dicts env df) 0 (s2\<lparr>combined_paths := []\<rparr>) = (Inr (), s3)"
    "build_combined_zip env (combined_paths s3) (out_dir args) s3 = (Inr (), st')"
    "combined_paths s3 = map (archive_of env args)
        (filter (has_features env args) (first_rows (limit args) (row_dicts env df)))"
  using assms(3)
proof (cases rule: main_elim)
  case (client u s1 s2 df' s3)
  then have df: "df' = df" using assms(2) by simp
  from iterate_ok_paths [OF assms(1) client(5)]
  have "combined_paths s3 = map (archive_of env args)
        (filter (has_features env args) (first_rows (limit args) (row_dicts env df)))"
    by (simp add: df row_dicts_def taken_first_rows)
  with client df that show ?thesis by (simp add: row_dicts_def)
next
  case (drive u s1 s2 df s3)
  with assms(1) show ?thesis by simp
qed simp_all

lemma paths_process_any:
  assumes "process_gauge_row env args row s = (r, s')"
  shows "\<exists>suf. combined_paths s' = combined_paths s @ suf \<and> length suf \<le> 1"
proof (cases "export_mode args = Client")
  case True
  show ?thesis
  proof (cases r)
    case (Inl e)
    with assms show ?thesis by (auto dest: paths_process_raise)
  next
    case (Inr u)
    with assms paths_process_ok [OF True, of env row s u s'] show ?thesis by auto
  qed
next
  case False
  from frame_process_drive [OF False assms] show ?thesis by simp
qed

lemma out_zip_of_inj: "out_zip_of d g1 = out_zip_of d g2 \<longleftrightarrow> g1 = g2"
  by (auto simp: out_zip_of_def path_join_def layer_of_def)

lemma distinct_archives:
  "list_all (\<lambda>r. gauge_of env args r \<noteq> None) rs \<Longrightarrow>
   distinct (map fst (records env args rs)) \<Longrightarrow> distinct (map (archive_of env args) rs)"
proof (induction rs)
  case Nil
  then show ?case by simp
next
  case (Cons r rs)
  from Cons.prems(1) obtain gid lat lon where g: "gauge_of env args r = Some (gid, lat, lon)"
    by (cases "gauge_of env args r") auto
  then have rec: "records env args (r # rs) = (gid, lat, lon) # records env args rs"
    by (simp add: records_def)
  have ar: "archive_of env args r = out_zip_of (out_dir args) gid"
    using g by (simp add: gauge_of_Some archive_of_def)
  have "archive_of env args r \<noteq> archive_of env args r'" if "r' \<in> set rs" for r'
  proof -
    from that Cons.prems(1) obtain gid' lat' lon' where g': "gauge_of env args r' = Some (gid', lat', lon')"
      by (cases "gauge_of env args r'") (auto simp: list_all_iff)
    with that have "(gid', lat', lon') \<in> set (records env args rs)"
      by (force simp: records_def List.map_filter_def)
    with Cons.prems(2) rec have "gid \<noteq> gid'" by force
    moreover have "archive_of env args r' = out_zip_of (out_dir args) gid'"
      using g' by (simp add: gauge_of_Some archive_of_def)
    ultimately show ?thesis using ar by (simp add: out_zip_of_inj)
  qed
  moreover have "distinct (map (archive_of env args) rs)"
    using Cons rec by simp
  ultimately show ?case by auto
qed

section \<open>The temporary directory and the archive of \<^verbatim>\<open>write_shapefile_zip\<close>\<close>








lemma mk_all_file:
  "mk_all env ds t = (r, t') \<Longrightarrow> (map_of t' p = Some (File c)) = (map_of t p = Some (File c))"
proof (induction ds arbitrary: t)
  case Nil
  then show ?case by simp
next
  case (Cons d ds)
  show ?case
  proof (cases "map_of t d")
    case None
    show ?thesis
    proof (cases "write_fault env d")
      case wf: None
      with None Cons.prems have "mk_all env ds (AList.update d Dir t) = (r, t')" by simp
      from Cons.IH [OF this] None show ?thesis
        by (cases "p = d") (simp_all add: update_conv')
    next
      case (Some e)
      with None Cons.prems show ?thesis by simp
    qed
  next
    case (Some n)
    show ?thesis
    proof (cases n)
      case Dir
      with Some Cons.prems have "mk_all env ds t = (r, t')" by simp
      then show ?thesis by (rule Cons.IH)
    next
      case (File c')
      with Some Cons.prems show ?thesis by simp
    qed
  qed
qed

lemma ensure_dir_file:
  assumes "ensure_dir env d st = (r, st')"
  shows "(map_of (fs st') p = Some (File c)) = (map_of (fs st) p = Some (File c))"
proof (cases "path_exists (fs st) d")
  case True
  with assms show ?thesis by (simp add: ensure_dir_def)
next
  case False
  obtain e t where m: "makedirs env d (fs st) = (e, t)"
    by (cases "makedirs env d (fs st)")
  with False assms have f: "fs st' = t"
    by (cases e) (auto simp: ensure_dir_def)
  show ?thesis
  proof (cases "d = []")
    case True
    with m f show ?thesis by (simp add: makedirs_def)
  next
    case False
    with m have "mk_all env (prefixes_at_slash [] d @ [d]) (fs st) = (e, t)"
      by (simp add: makedirs_def)
    from mk_all_file [OF this] f show ?thesis by simp
  qed
qed







lemma downloads_append: "downloads (xs @ ys) = downloads xs @ downloads ys"
  by (induction xs rule: downloads.induct) simp_all

lemma downloads_init_ee: "init_ee env p st = (r, st') \<Longrightarrow> downloads (log st') = downloads (log st)"
  by (auto simp: init_ee_def Let_def log_emit downloads_append split: if_splits)

lemma downloads_process_drive:
  "export_mode args \<noteq> Client \<Longrightarrow> process_gauge_row env args row st = (r, st') \<Longrightarrow>
     downloads (log st') = downloads (log st)"
  by (auto simp: process_gauge_row_def queue_ee_drive_export_def log_emit downloads_append
      split: sum.splits if_splits)

lemma downloads_iterate_drive:
  "export_mode args \<noteq> Client \<Longrightarrow> iterate env args rs c st = (r, st') \<Longrightarrow>
     downloads (log st') = downloads (log st)"
proof (induction rs arbitrary: c st)
  case Nil
  then show ?case by simp
next
  case (Cons row rest)
  obtain r1 st1 where p: "process_gauge_row env args row st = (r1, st1)"
    by (cases "process_gauge_row env args row st")
  note d = downloads_process_drive [OF Cons.prems(1) p]
  show ?case
  proof (cases r1)
    case (Inl e)
    with Cons.prems(2) p d show ?thesis by simp
  next
    case (Inr u)
    show ?thesis
    proof (cases "limit_reached (limit args) (c + 1)")
      case True
      with Cons.prems(2) p Inr d show ?thesis by (auto simp: log_emit downloads_append)
    next
      case False
      let ?s = "if sleep_sec args > 0 then emit (Sleep (sleep_sec args)) st1 else st1"
      from False Cons.prems(2) p Inr
      have "iterate env args rest (c + 1) ?s = (r, st')" by simp
      from Cons.IH [OF Cons.prems(1) this] d show ?thesis
        by (simp add: log_emit downloads_append)
    qed
  qed
qed

lemma queried_process:
  assumes "gauge_of env args row = Some (gid, lat, lon)"
    and "process_gauge_row env args row s = (r, s')"
  shows "queried (log s') = queried (log s) @
           [\<lparr>fc_dataset = DATASET_ID, fc_lon = lon, fc_lat = lat, fc_radius = buffer_km args * 1000\<rparr>]"
proof -
  have g: "get_float env row (lat_col args) = Inr lat" "get_float env row (lon_col args) = Inr lon"
    "get_str env row (id_col args) = Inr gid"
    using assms(1) by (simp_all add: gauge_of_Some)
  show ?thesis
    using assms(2) g unfolding process_gauge_row_def
    by (auto simp: log_emit queried_append get_subbasins_fc_def
        split: sum.splits prod.splits if_splits
        dest!: log_write_shapefile_zip log_fc_to_geodataframe log_queue)
qed









section \<open>The properties\<close>

text \<open>
  C1. In client mode the combined archive holds exactly one entry for every gauge whose
  region query returned a non-empty feature set, named by the base name of that gauge's
  archive, and none for the other gauges. For a run of \<^verbatim>\<open>main\<close> that returns normally, with
  the per-gauge archives still regular files at its end: the names of the entries of the
  combined archive are, in order, the base names of the archives of the rows taken up that
  have features; when no row has features, no file is written at all.
\<close>

theorem combined_archive_entries:
  assumes "export_mode args = Client"
    and "read_csv env (gauges_csv args) = Inr df"
    and "main env args st = (Inr (), st')"
    and "list_all (is_file (fs st')) (map (archive_of env args)
           (filter (has_features env args) (first_rows (limit args) (row_dicts env df))))"
  shows "(let ps = map (archive_of env args)
            (filter (has_features env args) (first_rows (limit args) (row_dicts env df)))
          in (ps \<noteq> [] \<longrightarrow>
                (\<exists>es. map_of (fs st') (combined_of (out_dir args)) = Some (File (Zip_file es)) \<and>
                      map fst es = map basename ps)) \<and>
             (ps = [] \<longrightarrow> files (fs st') = files (fs st)))"
proof -
  let ?ps = "map (archive_of env args)
            (filter (has_features env args) (first_rows (limit args) (row_dicts env df)))"
  from assms(1-3) obtain s1 s2 s3 where
    a: "ensure_dir env (out_dir args) st = (Inr (), s1)" and
    b: "init_ee env (ee_project args) s1 = (Inr (), s2)" and
    c: "iterate env args (row_dicts env df) 0 (s2\<lparr>combined_paths := []\<rparr>) = (Inr (), s3)" and
    d: "build_combined_zip env (combined_paths s3) (out_dir args) s3 = (Inr (), st')" and
    e: "combined_paths s3 = ?ps"
    by (rule main_client_ok)
  have 1: "\<exists>es. map_of (fs st') (combined_of (out_dir args)) = Some (File (Zip_file es)) \<and>
                      map fst es = map basename ?ps" if "?ps \<noteq> []"
    using build_combined_zip_entries [OF d] that assms(4) e by auto
  have 2: "files (fs st') = files (fs st)" if "?ps = []"
  proof -
    from that have "filter (has_features env args) (taken (limit args) 0 (row_dicts env df)) = []"
      by (simp add: taken_first_rows)
    from iterate_ok_no_features [OF assms(1) c this] have "fs s3 = fs s2" by simp
    moreover from d e that have "fs st' = fs s3"
      by (auto simp: build_combined_zip_def emit_def)
    moreover from b have "fs s2 = fs s1" by (rule fs_init_ee)
    moreover from a have "files (fs s1) = files (fs st)" by (rule files_ensure_dir)
    ultimately show ?thesis by simp
  qed
  from 1 2 show ?thesis by (simp add: Let_def)
qed

theorem combined_archive_entries_witness:
  "\<exists>es. map_of (fs (snd (main ex_env ex_args ex_state))) ''outputs/all_gauge_subbasins.zip'' =
          Some (File (Zip_file es)) \<and>
        map fst es = [''gauge_02AB_subbasins.zip'']"
proof -
  let ?st' = "snd (main ex_env ex_args ex_state)"
  let ?ps = "map (archive_of ex_env ex_args)
     (filter (has_features ex_env ex_args) (first_rows (limit ex_args) (row_dicts ex_env ex_df)))"
  have a: "export_mode ex_args = Client" by (simp add: ex_args_def)
  have b: "read_csv ex_env (gauges_csv ex_args) = Inr ex_df" by (simp add: ex_env_def)
  have "fst (main ex_env ex_args ex_state) = Inr ()" by (simp add: eval_simps)
  then have c: "main ex_env ex_args ex_state = (Inr (), ?st')" by (metis prod.collapse)
  have ps: "?ps = [''outputs/gauge_02AB_subbasins.zip'']"
    by (simp add: spec_defs eval_simps)
  have "is_file (fs ?st') ''outputs/gauge_02AB_subbasins.zip''"
    by (simp add: is_file_def eval_simps)
  then have d: "list_all (is_file (fs ?st')) ?ps" by (simp add: ps)
  have e: "combined_of (out_dir ex_args) = ''outputs/all_gauge_subbasins.zip''"
    by (simp add: eval_simps)
  have f: "map basename ?ps = [''gauge_02AB_subbasins.zip'']"
    by (simp add: ps basename_def)
  from combined_archive_entries [OF a b c d] ps
  have "\<exists>es. map_of (fs ?st') (combined_of (out_dir ex_args)) = Some (File (Zip_file es)) \<and>
        map fst es = map basename ?ps"
    by (simp add: Let_def)
  then show ?thesis by (simp only: e f)
qed

text \<open>
  C2. A gauge whose region query returns an empty feature set (or no \<^verbatim>\<open>features\<close> entry)
  is skipped with a notice in client mode: \<^verbatim>\<open>process_gauge_row\<close> returns normally, the
  only change of the state is the log (the processing line, the query and the notice), so
  no archive is written and nothing is appended to the list given to the aggregator, and
  the loop goes on with the next row unless the limit ends it.
\<close>

theorem empty_result_is_skipped:
  assumes "export_mode args = Client"
    and "gauge_of env args row = Some (gid, lat, lon)"
    and "get_info env (get_subbasins_fc lon lat (buffer_km args)) = Inr info"
    and "info = None \<or> info = Some []"
  shows "(let st1 = st\<lparr>log := log st @ [Print (Msg_processing gid lat lon),
                                        Get_info (get_subbasins_fc lon lat (buffer_km args)),
                                        Print (Msg_no_subbasins gid)]\<rparr>
          in process_gauge_row env args row st = (Inr (), st1) \<and>
             iterate env args (row # rest) c st =
               (if limit_reached (limit args) (c + 1)
                then (Inr (), emit (Print (Msg_reached_limit (the (limit args)))) st1)
                else iterate env args rest (c + 1)
                       (if sleep_sec args > 0 then emit (Sleep (sleep_sec args)) st1 else st1)))"
proof -
  let ?st1 = "st\<lparr>log := log st @ [Print (Msg_processing gid lat lon),
                                        Get_info (get_subbasins_fc lon lat (buffer_km args)),
                                        Print (Msg_no_subbasins gid)]\<rparr>"
  have g: "get_float env row (lat_col args) = Inr lat" "get_float env row (lon_col args) = Inr lon"
    "get_str env row (id_col args) = Inr gid"
    using assms(2) by (simp_all add: gauge_of_Some)
  have p: "process_gauge_row env args row st = (Inr (), ?st1)"
    using assms(1,3,4) g
    by (auto simp: process_gauge_row_def fc_to_geodataframe_def gdf_empty_def emit_def)
  from p iterate_step_ok [OF p] show ?thesis by (simp add: Let_def)
qed

theorem empty_result_is_skipped_witness:
  "process_gauge_row ex_env ex_args ex_row_empty ex_state =
     (Inr (), \<lparr>fs = [], log = [Print (Msg_processing ''02CD'' 50 (- 85)),
        Get_info \<lparr>fc_dataset = DATASET_ID, fc_lon = - 85, fc_lat = 50, fc_radius = 25000\<rparr>,
        Print (Msg_no_subbasins ''02CD'')], combined_paths = []\<rparr>) \<and>
   iterate ex_env ex_args [ex_row_empty, ex_row_full] 0 ex_state =
     iterate ex_env ex_args [ex_row_full] 1
       \<lparr>fs = [], log = [Print (Msg_processing ''02CD'' 50 (- 85)),
        Get_info \<lparr>fc_dataset = DATASET_ID, fc_lon = - 85, fc_lat = 50, fc_radius = 25000\<rparr>,
        Print (Msg_no_subbasins ''02CD'')], combined_paths = []\<rparr>"
proof -
  have a: "export_mode ex_args = Client" by (simp add: ex_args_def)
  have b: "gauge_of ex_env ex_args ex_row_empty = Some (''02CD'', 50, - 85)"
    by (simp add: gauge_of_def ex_row_empty_def eval_simps)
  have c: "get_info ex_env (get_subbasins_fc (- 85) 50 (buffer_km ex_args)) = Inr (Some [])"
    by (simp add: eval_simps)
  have d: "Some [] = None \<or> Some [] = Some ([] :: feature list)" by simp
  have e: "\<not> limit_reached (limit ex_args) (0 + 1)" "\<not> sleep_sec ex_args > 0"
    by (simp_all add: eval_simps)
  show ?thesis
    using empty_result_is_skipped [OF a b c d, of ex_state "[ex_row_full]" 0] e
    by (simp add: Let_def get_subbasins_fc_def ex_state_def ex_args_def)
qed

text \<open>
  C3. Given a record-count limit of \<open>N\<close>, exactly the first \<open>N\<close> rows are processed. As
  stated this fails for \<open>N = 0\<close>, which the test \<^verbatim>\<open>args.limit and count >= args.limit\<close>
  takes as no limit: both rows of the table are processed. For \<open>N \<ge> 1\<close>: in every run
  the gauges processed are those of a prefix of the first \<open>N\<close> rows, and in a run that
  returns normally they are exactly the gauges of the first \<open>N\<close> rows, in file order.
\<close>

theorem limit_takes_first_rows:
  assumes "limit args = Some n" and "1 \<le> n" and "processed (log st) = []"
    and "read_csv env (gauges_csv args) = Inr df" and "main env args st = (r, st')"
  shows "(\<exists>k \<le> nat n. processed (log st') = records env args (take k (row_dicts env df))) \<and>
         (r = Inr () \<longrightarrow>
            map Some (processed (log st')) =
              map (gauge_of env args) (take (nat n) (row_dicts env df)))"
proof -
  have tk: "taken (limit args) 0 rs = take (nat n) rs" for rs :: "(string \<times> 'a cell) list list"
    using assms(1,2) taken_limit [of 0 n rs] by simp
  have none: "?thesis" if "processed (log st') = []" "r \<noteq> Inr ()"
    using that by (auto simp: records_def intro!: exI [of _ 0])
  from assms(5) show ?thesis
  proof (cases rule: main_elim)
    case (dir_fail e)
    then show ?thesis using none assms(3) processed_setup(1) by fastforce
  next
    case (init_fail u s1 e)
    then show ?thesis using none assms(3) processed_setup(2) by fastforce
  next
    case (read_fail u s1 s2 e)
    then show ?thesis using assms(4) by simp
  next
    case (cols_fail u s1 s2 df' e)
    then show ?thesis using none assms(3) processed_setup(2) by fastforce
  next
    case (iter_fail u s1 s2 df' e)
    then have df: "df' = df" using assms(4) by simp
    have p0: "processed (log (s2\<lparr>combined_paths := []\<rparr>)) = []"
      using iter_fail(1,2) assms(3) processed_setup(2) by fastforce
    from iterate_any_processed [OF iter_fail(5)] p0 tk df
    obtain k where k: "processed (log st') = records env args (take k (take (nat n) (row_dicts env df)))"
      by (auto simp: row_dicts_def)
    then have "processed (log st') = records env args (take (min k (nat n)) (row_dicts env df))"
      by simp
    moreover have "min k (nat n) \<le> nat n" by simp
    ultimately show ?thesis using iter_fail(6) by blast
  next
    case (client u s1 s2 df' s3)
    then have df: "df' = df" using assms(4) by simp
    have p0: "processed (log (s2\<lparr>combined_paths := []\<rparr>)) = []"
      using client(1,2) assms(3) processed_setup(2) by fastforce
    from iterate_ok_processed [OF client(5)] p0 tk df
    have a: "processed (log s3) = records env args (take (nat n) (row_dicts env df))"
      and b: "list_all (\<lambda>r. gauge_of env args r \<noteq> None) (take (nat n) (row_dicts env df))"
      by (auto simp: row_dicts_def)
    have c: "processed (log st') = processed (log s3)"
      using client(7) by (rule processed_build_combined_zip)
    from a b c map_Some_records [OF b] show ?thesis by auto
  next
    case (drive u s1 s2 df' s3)
    then have df: "df' = df" using assms(4) by simp
    have p0: "processed (log (s2\<lparr>combined_paths := []\<rparr>)) = []"
      using drive(1,2) assms(3) processed_setup(2) by fastforce
    from iterate_ok_processed [OF drive(5)] p0 tk df
    have a: "processed (log s3) = records env args (take (nat n) (row_dicts env df))"
      and b: "list_all (\<lambda>r. gauge_of env args r \<noteq> None) (take (nat n) (row_dicts env df))"
      by (auto simp: row_dicts_def)
    have c: "processed (log st') = processed (log s3)"
      using drive(8) by (simp add: log_emit processed_append)
    from a b c map_Some_records [OF b] show ?thesis by auto
  qed
qed

theorem limit_takes_first_rows_witness:
  "processed (log (snd (main ex_env (ex_args\<lparr>limit := Some 1\<rparr>) ex_state))) =
     [(''02AB'', 45, - 80)] \<and>
   fst (main ex_env (ex_args\<lparr>limit := Some 1\<rparr>) ex_state) = Inr () \<and>
   map (gauge_of ex_env (ex_args\<lparr>limit := Some 1\<rparr>)) (take (nat 1) (row_dicts ex_env ex_df)) =
     [Some (''02AB'', 45, - 80)]"
proof -
  let ?args = "ex_args\<lparr>limit := Some 1\<rparr>"
  have a: "limit ?args = Some 1" by simp
  have b: "(1::int) \<le> 1" by simp
  have c: "processed (log ex_state) = []" by (simp add: ex_state_def)
  have d: "read_csv ex_env (gauges_csv ?args) = Inr ex_df" by (simp add: ex_env_def)
  have r: "fst (main ex_env ?args ex_state) = Inr ()"
    by (simp add: eval_simps)
  have e: "main ex_env ?args ex_state = (Inr (), snd (main ex_env ?args ex_state))"
    using r by (metis prod.collapse)
  have g: "map (gauge_of ex_env ?args) (take (nat 1) (row_dicts ex_env ex_df)) =
     [Some (''02AB'', 45, - 80)]"
    by (simp add: gauge_of_def row_dicts_def eval_simps)
  from limit_takes_first_rows [OF a b c d e] g
  have "map Some (processed (log (snd (main ex_env ?args ex_state)))) = [Some (''02AB'', 45, - 80)]"
    by simp
  then have "processed (log (snd (main ex_env ?args ex_state))) = [(''02AB'', 45, - 80)]"
    by (auto simp: map_eq_Cons_conv)
  with r g show ?thesis by simp
qed

text \<open>The limit 0: the run processes the two rows of the table, not the first 0.\<close>

theorem limit_zero_counterexample:
  "limit (ex_args\<lparr>limit := Some 0\<rparr>) = Some 0 \<and>
   fst (main ex_env (ex_args\<lparr>limit := Some 0\<rparr>) ex_state) = Inr () \<and>
   processed (log (snd (main ex_env (ex_args\<lparr>limit := Some 0\<rparr>) ex_state))) =
     [(''02AB'', 45, - 80), (''02CD'', 50, - 85)] \<and>
   processed (log (snd (main ex_env (ex_args\<lparr>limit := Some 0\<rparr>) ex_state))) \<noteq>
     records ex_env (ex_args\<lparr>limit := Some 0\<rparr>) (take (nat 0) (row_dicts ex_env ex_df))"
  by (simp add: eval_simps records_def)

text \<open>
  C4. If one of the three named columns is absent from the loaded table, the program
  raises the configuration error right after the load: when the output directory, the
  initialisation and the load succeed, \<^verbatim>\<open>main\<close> returns the error of an absent column in
  the state the initialisation left, so no region query was issued, no record was taken
  up and no file was written.
\<close>

theorem missing_column_raises_after_load:
  assumes "ensure_dir env (out_dir args) st = (Inr (), s1)"
    and "init_ee env (ee_project args) s1 = (Inr (), s2)"
    and "read_csv env (gauges_csv args) = Inr df"
    and "\<not> {lat_col args, lon_col args, id_col args} \<subseteq> set (columns df)"
  shows "(\<exists>c \<in> {lat_col args, lon_col args, id_col args}.
           c \<notin> set (columns df) \<and> main env args st = (Inl (column_error c), s2)) \<and>
         queried (log s2) = queried (log st) \<and>
         processed (log s2) = processed (log st) \<and>
         files (fs s2) = files (fs st)"
proof -
  have "\<not> set [lat_col args, lon_col args, id_col args] \<subseteq> set (columns df)"
    using assms(4) by simp
  from check_columns_missing [OF this]
  obtain c where c: "c \<in> set [lat_col args, lon_col args, id_col args]" "c \<notin> set (columns df)"
    "check_columns [lat_col args, lon_col args, id_col args] (columns df) = Some (column_error c)"
    by blast
  have "main env args st = (Inl (column_error c), s2)"
    using assms(1-3) c(3) by (simp add: main_def)
  with c have 1: "\<exists>c \<in> {lat_col args, lon_col args, id_col args}.
           c \<notin> set (columns df) \<and> main env args st = (Inl (column_error c), s2)"
    by auto
  have 2: "queried (log s2) = queried (log st)"
    using assms(1,2) by (auto dest!: log_ensure_dir log_init_ee)
  have 3: "processed (log s2) = processed (log st)"
    using assms(1,2) by (auto dest!: log_ensure_dir processed_init_ee)
  have 4: "files (fs s2) = files (fs st)"
    using assms(1,2) by (auto dest!: files_ensure_dir fs_init_ee)
  from 1 2 3 4 show ?thesis by blast
qed

theorem missing_column_raises_after_load_witness:
  "main (ex_env\<lparr>read_csv := (\<lambda>path. Inr ex_df_no_lat)\<rparr>) ex_args ex_state =
     (Inl (column_error ''LATITUDE''),
      \<lparr>fs = [(''outputs'', Dir)], log = [Ee_initialize None], combined_paths = []\<rparr>)"
proof -
  let ?env = "ex_env\<lparr>read_csv := (\<lambda>path. Inr ex_df_no_lat)\<rparr>"
  let ?s = "\<lparr>fs = [(''outputs'', Dir)], log = [], combined_paths = []\<rparr> :: real state"
  let ?s2 = "\<lparr>fs = [(''outputs'', Dir)], log = [Ee_initialize None], combined_paths = []\<rparr> :: real state"
  have a: "ensure_dir ?env (out_dir ex_args) ex_state = (Inr (), ?s)"
    by (simp add: eval_simps)
  have b: "init_ee ?env (ee_project ex_args) ?s = (Inr (), ?s2)"
    by (simp add: eval_simps)
  have c: "read_csv ?env (gauges_csv ex_args) = Inr ex_df_no_lat"
    by (simp add: eval_simps)
  have d: "\<not> {lat_col ex_args, lon_col ex_args, id_col ex_args} \<subseteq> set (columns ex_df_no_lat)"
    by (simp add: eval_simps ex_df_no_lat_def)
  have e: "c \<in> {lat_col ex_args, lon_col ex_args, id_col ex_args} \<Longrightarrow>
      c \<notin> set (columns ex_df_no_lat) \<Longrightarrow> c = ''LATITUDE''" for c
    by (auto simp: eval_simps ex_df_no_lat_def)
  from missing_column_raises_after_load [OF a b c d]
  obtain c where "c \<in> {lat_col ex_args, lon_col ex_args, id_col ex_args}"
    "c \<notin> set (columns ex_df_no_lat)" "main ?env ex_args ex_state = (Inl (column_error c), ?s2)"
    by blast
  with e [of c] show ?thesis by simp
qed

text \<open>
  C5. In remote (\<^verbatim>\<open>ee_drive\<close>) mode no per-gauge archive and no combined archive is ever
  written, and only export jobs are submitted: whatever the table, the answers of the
  service and the result of the run, the regular files of the file system after \<^verbatim>\<open>main\<close>
  are those before it, and no feature collection is downloaded.
\<close>

theorem remote_mode_writes_no_file:
  assumes "export_mode args = Ee_drive" and "main env args st = (r, st')"
  shows "files (fs st') = files (fs st) \<and> downloads (log st') = downloads (log st)"
proof -
  have nc: "export_mode args \<noteq> Client" using assms(1) by simp
  have pre: "files (fs s2) = files (fs st) \<and> downloads (log s2) = downloads (log st)"
    if "ensure_dir env (out_dir args) st = (r1, s1)" and "init_ee env (ee_project args) s1 = (r2, s2)"
    for r1 s1 r2 s2
    using files_ensure_dir [OF that(1)] fs_init_ee [OF that(2)] log_ensure_dir [OF that(1)]
      downloads_init_ee [OF that(2)]
    by simp
  from assms(2) show ?thesis
  proof (cases rule: main_elim)
    case (dir_fail e)
    then show ?thesis
      using files_ensure_dir [of env "out_dir args" st r st'] log_ensure_dir [of env "out_dir args" st r st']
      by simp
  next
    case (init_fail u s1 e)
    then show ?thesis using pre by blast
  next
    case (read_fail u s1 s2 e)
    then show ?thesis using pre by blast
  next
    case (cols_fail u s1 s2 df e)
    then show ?thesis using pre by blast
  next
    case (iter_fail u s1 s2 df e)
    from frame_iterate_drive [OF nc iter_fail(5)] downloads_iterate_drive [OF nc iter_fail(5)]
      pre [OF iter_fail(1,2)]
    show ?thesis by simp
  next
    case (client u s1 s2 df s3)
    with assms(1) show ?thesis by simp
  next
    case (drive u s1 s2 df s3)
    from frame_iterate_drive [OF nc drive(5)] downloads_iterate_drive [OF nc drive(5)]
      pre [OF drive(1,2)] drive(8)
    show ?thesis by (simp add: emit_def downloads_append)
  qed
qed

theorem remote_mode_writes_no_file_witness:
  "export_mode (ex_args\<lparr>export_mode := Ee_drive\<rparr>) = Ee_drive \<and>
   fst (main ex_env (ex_args\<lparr>export_mode := Ee_drive\<rparr>) ex_state) = Inr () \<and>
   files (fs (snd (main ex_env (ex_args\<lparr>export_mode := Ee_drive\<rparr>) ex_state))) = [] \<and>
   downloads (log (snd (main ex_env (ex_args\<lparr>export_mode := Ee_drive\<rparr>) ex_state))) = []"
proof -
  let ?args = "ex_args\<lparr>export_mode := Ee_drive\<rparr>"
  have m: "export_mode ?args = Ee_drive" by simp
  have r: "fst (main ex_env ?args ex_state) = Inr ()"
    by (simp add: eval_simps)
  have f: "files (fs ex_state) = []" "downloads (log ex_state) = []"
    by (simp_all add: files_def ex_state_def)
  have p: "main ex_env ?args ex_state =
      (fst (main ex_env ?args ex_state), snd (main ex_env ?args ex_state))"
    by simp
  have "files (fs (snd (main ex_env ?args ex_state))) = files (fs ex_state) \<and>
      downloads (log (snd (main ex_env ?args ex_state))) = downloads (log ex_state)"
    using m p by (rule remote_mode_writes_no_file)
  with m r f show ?thesis by simp
qed

text \<open>
  C6. For every valid input row, the radius given to the buffering step of the region
  query is the configured radius in kilometres times 1000: in a run started with an empty
  log, every feature collection that was queried or exported has the radius
  \<open>buffer_km * 1000\<close>, whatever the run returns; and for every row that has a gauge record
  \<^verbatim>\<open>process_gauge_row\<close> queries or exports one feature collection, the one of the
  longitude and latitude of the row with that radius.
\<close>

theorem radius_is_km_times_1000:
  assumes "log st = []" and "main env args st = (r, st')"
  shows "list_all (\<lambda>fc. fc_radius fc = buffer_km args * 1000) (queried (log st')) \<and>
         (\<forall>row gid lat lon s r1 s1.
            gauge_of env args row = Some (gid, lat, lon) \<longrightarrow>
            process_gauge_row env args row s = (r1, s1) \<longrightarrow>
            queried (log s1) = queried (log s) @
              [\<lparr>fc_dataset = DATASET_ID, fc_lon = lon, fc_lat = lat,
                fc_radius = buffer_km args * 1000\<rparr>])"
proof -
  have start: "radius_ok args (log st)"
    using assms(1) by (simp add: radius_ok_def)
  have "radius_ok args (log st')"
    using assms(2)
  proof (cases rule: main_elim)
    case (dir_fail e)
    then show ?thesis using start by (auto simp: radius_ok_def dest!: log_ensure_dir)
  next
    case (init_fail u s1 e)
    then show ?thesis using start by (auto simp: radius_ok_def dest!: log_ensure_dir log_init_ee)
  next
    case (read_fail u s1 s2 e)
    then show ?thesis using start by (auto simp: radius_ok_def dest!: log_ensure_dir log_init_ee)
  next
    case (cols_fail u s1 s2 df e)
    then show ?thesis using start by (auto simp: radius_ok_def dest!: log_ensure_dir log_init_ee)
  next
    case (iter_fail u s1 s2 df e)
    then have "radius_ok args (log (s2\<lparr>combined_paths := []\<rparr>))"
      using start by (auto simp: radius_ok_def dest!: log_ensure_dir log_init_ee)
    then show ?thesis using iter_fail(5) by (rule radius_ok_iterate)
  next
    case (client u s1 s2 df s3)
    then have "radius_ok args (log (s2\<lparr>combined_paths := []\<rparr>))"
      using start by (auto simp: radius_ok_def dest!: log_ensure_dir log_init_ee)
    then have "radius_ok args (log s3)" using client(5) by (rule radius_ok_iterate)
    then show ?thesis using client(7) by (auto simp: radius_ok_def dest!: log_build_combined_zip)
  next
    case (drive u s1 s2 df s3)
    then have "radius_ok args (log (s2\<lparr>combined_paths := []\<rparr>))"
      using start by (auto simp: radius_ok_def dest!: log_ensure_dir log_init_ee)
    then have "radius_ok args (log s3)" using drive(5) by (rule radius_ok_iterate)
    then show ?thesis using drive by (simp add: radius_ok_def log_emit queried_append)
  qed
  then show ?thesis using queried_process by (simp add: radius_ok_def) blast
qed

theorem radius_is_km_times_1000_witness:
  "log ex_state = [] \<and>
   queried (log (snd (main ex_env ex_args ex_state))) =
     [\<lparr>fc_dataset = DATASET_ID, fc_lon = - 80, fc_lat = 45, fc_radius = 25000\<rparr>,
      \<lparr>fc_dataset = DATASET_ID, fc_lon = - 85, fc_lat = 50, fc_radius = 25000\<rparr>] \<and>
   list_all (\<lambda>fc. fc_radius fc = buffer_km ex_args * 1000)
     (queried (log (snd (main ex_env ex_args ex_state))))"
proof -
  have e: "log ex_state = []" by (simp add: ex_state_def)
  have q: "queried (log (snd (main ex_env ex_args ex_state))) =
     [\<lparr>fc_dataset = DATASET_ID, fc_lon = - 80, fc_lat = 45, fc_radius = 25000\<rparr>,
      \<lparr>fc_dataset = DATASET_ID, fc_lon = - 85, fc_lat = 50, fc_radius = 25000\<rparr>]"
    by (simp add: eval_simps)
  have "list_all (\<lambda>fc. fc_radius fc = buffer_km ex_args * 1000)
     (queried (log (snd (main ex_env ex_args ex_state))))"
    using radius_is_km_times_1000 [OF e, of ex_env ex_args
        "fst (main ex_env ex_args ex_state)" "snd (main ex_env ex_args ex_state)"]
    by simp
  with e q show ?thesis by (simp only:)
qed

text \<open>
  C7. Every per-gauge archive corresponds to one gauge record, and no two distinct records
  yield the same archive. As stated this fails for records that share an identifier: the
  archive is named by the identifier alone. When the identifiers of the rows taken up are
  distinct, a run of \<^verbatim>\<open>main\<close> in client mode that returns normally produces pairwise
  distinct archives, one for each row with features, and the combined archive holds one
  entry for each of them.
\<close>

theorem distinct_ids_distinct_archives:
  assumes "export_mode args = Client"
    and "read_csv env (gauges_csv args) = Inr df"
    and "main env args st = (Inr (), st')"
    and "distinct (map fst (records env args (first_rows (limit args) (row_dicts env df))))"
  shows "combined_paths st' = map (archive_of env args)
           (filter (has_features env args) (first_rows (limit args) (row_dicts env df))) \<and>
         distinct (combined_paths st') \<and>
         (combined_paths st' \<noteq> [] \<longrightarrow>
            (\<exists>es. map_of (fs st') (combined_of (out_dir args)) = Some (File (Zip_file es)) \<and>
                  list_all2 (\<lambda>e p. fst e = basename p \<or> fst e = basename p @ ''/'') es
                    (combined_paths st')))"
proof -
  let ?rs = "first_rows (limit args) (row_dicts env df)"
  from assms(1-3) obtain s1 s2 s3 where
    c: "iterate env args (row_dicts env df) 0 (s2\<lparr>combined_paths := []\<rparr>) = (Inr (), s3)" and
    d: "build_combined_zip env (combined_paths s3) (out_dir args) s3 = (Inr (), st')" and
    e: "combined_paths s3 = map (archive_of env args) (filter (has_features env args) ?rs)"
    by (rule main_client_ok)
  from iterate_ok_processed [OF c] have "list_all (\<lambda>r. gauge_of env args r \<noteq> None) ?rs"
    by (simp add: taken_first_rows)
  from distinct_archives [OF this assms(4)] have "distinct (map (archive_of env args) ?rs)" .
  then have "distinct (map (archive_of env args) (filter (has_features env args) ?rs))"
    by (rule distinct_map_filter)
  moreover from d have p: "combined_paths st' = combined_paths s3"
    by (rule paths_build_combined_zip)
  moreover have "\<exists>es. map_of (fs st') (combined_of (out_dir args)) = Some (File (Zip_file es)) \<and>
      list_all2 (\<lambda>e p. fst e = basename p \<or> fst e = basename p @ ''/'') es (combined_paths st')"
    if "combined_paths st' \<noteq> []"
    using build_combined_zip_entries [OF d] that p by auto
  ultimately show ?thesis using e by simp
qed

theorem distinct_ids_distinct_archives_witness:
  "combined_paths (snd (main ex_env3 ex_args ex_state)) =
     map (archive_of ex_env3 ex_args)
       (filter (has_features ex_env3 ex_args) (first_rows (limit ex_args) (row_dicts ex_env3 ex_df3))) \<and>
   distinct (combined_paths (snd (main ex_env3 ex_args ex_state))) \<and>
   map fst (records ex_env3 ex_args (first_rows (limit ex_args) (row_dicts ex_env3 ex_df3))) =
     [''02AB'', ''02CD'', ''02EF'']"
proof -
  let ?st' = "snd (main ex_env3 ex_args ex_state)"
  have a: "export_mode ex_args = Client" by (simp add: ex_args_def)
  have b: "read_csv ex_env3 (gauges_csv ex_args) = Inr ex_df3" by (simp add: ex_env3_def)
  have "fst (main ex_env3 ex_args ex_state) = Inr ()"
    by (simp add: ex_env3_def ex_df3_def eval_simps)
  then have c: "main ex_env3 ex_args ex_state = (Inr (), ?st')" by (metis prod.collapse)
  have ids: "map fst (records ex_env3 ex_args (first_rows (limit ex_args) (row_dicts ex_env3 ex_df3))) =
     [''02AB'', ''02CD'', ''02EF'']"
    by (simp add: spec_defs ex_env3_def ex_df3_def eval_simps)
  then have d: "distinct (map fst (records ex_env3 ex_args
      (first_rows (limit ex_args) (row_dicts ex_env3 ex_df3))))"
    by simp
  from distinct_ids_distinct_archives [OF a b c d] ids show ?thesis by blast
qed

text \<open>Two records with the identifier 02AB at different places: both yield the archive
  \<^verbatim>\<open>outputs/gauge_02AB_subbasins.zip\<close>, and one file of that name is left.\<close>

theorem shared_id_counterexample:
  "fst (main ex_env_dup ex_args ex_state) = Inr () \<and>
   records ex_env_dup ex_args (row_dicts ex_env_dup ex_df_dup) =
     [(''02AB'', 45, - 80), (''02AB'', 46, - 81)] \<and>
   combined_paths (snd (main ex_env_dup ex_args ex_state)) =
     [''outputs/gauge_02AB_subbasins.zip'', ''outputs/gauge_02AB_subbasins.zip''] \<and>
   \<not> distinct (combined_paths (snd (main ex_env_dup ex_args ex_state))) \<and>
   map fst (files (fs (snd (main ex_env_dup ex_args ex_state)))) =
     [''outputs/gauge_02AB_subbasins.zip'', ''outputs/all_gauge_subbasins.zip'']"
  by (simp add: spec_defs ex_env_dup_def ex_df_dup_def eval_simps)

text \<open>
  C8. An exception raised while a record is processed propagates unchanged and halts the
  run. An error of \<^verbatim>\<open>process_gauge_row\<close> is the result of the loop, in the state the row left,
  whatever rows follow; an error of the loop is the error of one row, in the state that row
  left; \<^verbatim>\<open>main\<close> returns it without calling the aggregator; and an error of the query and
  materialisation, of the file writing or of the export submission is the error of
  \<^verbatim>\<open>process_gauge_row\<close>.
\<close>

theorem exception_halts_run:
  "(process_gauge_row env args row s = (Inl e, s') \<longrightarrow>
      iterate env args (row # rest) c s = (Inl e, s')) \<and>
   (iterate env args rs c s = (Inl e, s') \<longrightarrow>
      (\<exists>pre r post sp. rs = pre @ r # post \<and> process_gauge_row env args r sp = (Inl e, s'))) \<and>
   (ensure_dir env (out_dir args) st = (Inr (), s1) \<and>
    init_ee env (ee_project args) s1 = (Inr (), s2) \<and>
    read_csv env (gauges_csv args) = Inr df \<and>
    check_columns [lat_col args, lon_col args, id_col args] (columns df) = None \<and>
    iterate env args (row_dicts env df) 0 (s2\<lparr>combined_paths := []\<rparr>) = (Inl e, st') \<longrightarrow>
      main env args st = (Inl e, st')) \<and>
   (gauge_of env args row = Some (gid, lat, lon) \<and> export_mode args = Client \<and>
    fc_to_geodataframe env (get_subbasins_fc lon lat (buffer_km args))
      (emit (Print (Msg_processing gid lat lon)) s) = (Inl e, s') \<longrightarrow>
      process_gauge_row env args row s = (Inl e, s')) \<and>
   (gauge_of env args row = Some (gid, lat, lon) \<and> export_mode args = Client \<and>
    fc_to_geodataframe env (get_subbasins_fc lon lat (buffer_km args))
      (emit (Print (Msg_processing gid lat lon)) s) = (Inr g, sq) \<and> \<not> gdf_empty g \<and>
    write_shapefile_zip env g (out_zip_of (out_dir args) gid) (layer_of gid) sq = (Inl e, s') \<longrightarrow>
      process_gauge_row env args row s = (Inl e, s')) \<and>
   (gauge_of env args row = Some (gid, lat, lon) \<and> export_mode args = Ee_drive \<and>
    queue_ee_drive_export env (get_subbasins_fc lon lat (buffer_km args)) (layer_of gid)
      (drive_folder args) (emit (Print (Msg_processing gid lat lon)) s) = (Inl e, s') \<longrightarrow>
      process_gauge_row env args row s = (Inl e, s'))"
proof (intro conjI impI)
  assume "process_gauge_row env args row s = (Inl e, s')"
  then show "iterate env args (row # rest) c s = (Inl e, s')" by simp
next
  assume "iterate env args rs c s = (Inl e, s')"
  then show "\<exists>pre r post sp. rs = pre @ r # post \<and> process_gauge_row env args r sp = (Inl e, s')"
    by (rule iterate_raise_origin)
next
  assume "ensure_dir env (out_dir args) st = (Inr (), s1) \<and>
    init_ee env (ee_project args) s1 = (Inr (), s2) \<and>
    read_csv env (gauges_csv args) = Inr df \<and>
    check_columns [lat_col args, lon_col args, id_col args] (columns df) = None \<and>
    iterate env args (row_dicts env df) 0 (s2\<lparr>combined_paths := []\<rparr>) = (Inl e, st')"
  then show "main env args st = (Inl e, st')"
    using main_iterate_raises by blast
next
  assume "gauge_of env args row = Some (gid, lat, lon) \<and> export_mode args = Client \<and>
    fc_to_geodataframe env (get_subbasins_fc lon lat (buffer_km args))
      (emit (Print (Msg_processing gid lat lon)) s) = (Inl e, s')"
  then show "process_gauge_row env args row s = (Inl e, s')"
    using substep_raises(1) by blast
next
  assume "gauge_of env args row = Some (gid, lat, lon) \<and> export_mode args = Client \<and>
    fc_to_geodataframe env (get_subbasins_fc lon lat (buffer_km args))
      (emit (Print (Msg_processing gid lat lon)) s) = (Inr g, sq) \<and> \<not> gdf_empty g \<and>
    write_shapefile_zip env g (out_zip_of (out_dir args) gid) (layer_of gid) sq = (Inl e, s')"
  then show "process_gauge_row env args row s = (Inl e, s')"
    using substep_raises(2) by blast
next
  assume "gauge_of env args row = Some (gid, lat, lon) \<and> export_mode args = Ee_drive \<and>
    queue_ee_drive_export env (get_subbasins_fc lon lat (buffer_km args)) (layer_of gid)
      (drive_folder args) (emit (Print (Msg_processing gid lat lon)) s) = (Inl e, s')"
  then show "process_gauge_row env args row s = (Inl e, s')"
    using substep_raises(3) by blast
qed

theorem exception_halts_run_witness:
  "process_gauge_row ex_env_fail ex_args ex_row_empty ex_state =
     (Inl (EEException ''quota''),
      \<lparr>fs = [], log = [Print (Msg_processing ''02CD'' 50 (- 85)),
         Get_info \<lparr>fc_dataset = DATASET_ID, fc_lon = - 85, fc_lat = 50, fc_radius = 25000\<rparr>],
       combined_paths = []\<rparr>) \<and>
   iterate ex_env_fail ex_args [ex_row_empty, ex_row_full] 0 ex_state =
     (Inl (EEException ''quota''),
      \<lparr>fs = [], log = [Print (Msg_processing ''02CD'' 50 (- 85)),
         Get_info \<lparr>fc_dataset = DATASET_ID, fc_lon = - 85, fc_lat = 50, fc_radius = 25000\<rparr>],
       combined_paths = []\<rparr>)"
proof -
  let ?s = "\<lparr>fs = [], log = [Print (Msg_processing ''02CD'' 50 (- 85)),
         Get_info \<lparr>fc_dataset = DATASET_ID, fc_lon = - 85, fc_lat = 50, fc_radius = 25000\<rparr>],
       combined_paths = []\<rparr> :: real state"
  have p: "process_gauge_row ex_env_fail ex_args ex_row_empty ex_state =
      (Inl (EEException ''quota''), ?s)"
    by (simp add: ex_env_fail_def ex_row_empty_def eval_simps)
  have "process_gauge_row ex_env_fail ex_args ex_row_empty ex_state =
      (Inl (EEException ''quota''), ?s) \<longrightarrow>
    iterate ex_env_fail ex_args (ex_row_empty # [ex_row_full]) 0 ex_state =
      (Inl (EEException ''quota''), ?s)"
    using exception_halts_run [of ex_env_fail ex_args ex_row_empty ex_state
        "EEException ''quota''" ?s "[ex_row_full]" 0]
    by (rule conjunct1)
  with p show ?thesis by simp
qed




text \<open>
  C10. The entries of the combined archive follow the order of the rows. Every call of
  \<^verbatim>\<open>process_gauge_row\<close> leaves the list of paths as it was or appends one path; after the
  loop, in client mode, the list is the one before it followed by the archives of the rows
  with features among the first \<open>k\<close> rows, in row order; \<^verbatim>\<open>build_combined_zip\<close> writes one
  entry per path, in list order, named by the base name of the path (followed by a slash
  for a path that is a directory); and so does a run of \<^verbatim>\<open>main\<close> that returns normally.
\<close>

theorem archive_order_follows_rows:
  "(process_gauge_row env args row s = (r, s') \<longrightarrow>
      (\<exists>suf. combined_paths s' = combined_paths s @ suf \<and> length suf \<le> 1)) \<and>
   (export_mode args = Client \<and> iterate env args rs c s = (r, s') \<longrightarrow>
      (\<exists>k \<le> length rs. combined_paths s' = combined_paths s @
          map (archive_of env args) (filter (has_features env args) (take k rs)))) \<and>
   (build_combined_zip env ps d s = (Inr u, s') \<and> ps \<noteq> [] \<longrightarrow>
      (\<exists>es. map_of (fs s') (combined_of d) = Some (File (Zip_file es)) \<and>
            list_all2 (\<lambda>e p. fst e = basename p \<or> fst e = basename p @ ''/'') es ps)) \<and>
   (export_mode args = Client \<and> read_csv env (gauges_csv args) = Inr df \<and>
    main env args st = (Inr (), st') \<and>
    filter (has_features env args) (first_rows (limit args) (row_dicts env df)) \<noteq> [] \<longrightarrow>
      (\<exists>es. map_of (fs st') (combined_of (out_dir args)) = Some (File (Zip_file es)) \<and>
            list_all2 (\<lambda>e p. fst e = basename p \<or> fst e = basename p @ ''/'') es
              (map (archive_of env args)
                 (filter (has_features env args) (first_rows (limit args) (row_dicts env df))))))"
proof (intro conjI impI)
  assume "process_gauge_row env args row s = (r, s')"
  then show "\<exists>suf. combined_paths s' = combined_paths s @ suf \<and> length suf \<le> 1"
    by (rule paths_process_any)
next
  assume "export_mode args = Client \<and> iterate env args rs c s = (r, s')"
  then show "\<exists>k \<le> length rs. combined_paths s' = combined_paths s @
          map (archive_of env args) (filter (has_features env args) (take k rs))"
    using iterate_any_paths by blast
next
  assume "build_combined_zip env ps d s = (Inr u, s') \<and> ps \<noteq> []"
  then show "\<exists>es. map_of (fs s') (combined_of d) = Some (File (Zip_file es)) \<and>
            list_all2 (\<lambda>e p. fst e = basename p \<or> fst e = basename p @ ''/'') es ps"
    using build_combined_zip_entries [of env ps d s u s'] by blast
next
  let ?ps = "map (archive_of env args)
                 (filter (has_features env args) (first_rows (limit args) (row_dicts env df)))"
  assume h: "export_mode args = Client \<and> read_csv env (gauges_csv args) = Inr df \<and>
    main env args st = (Inr (), st') \<and>
    filter (has_features env args) (first_rows (limit args) (row_dicts env df)) \<noteq> []"
  then obtain s3 where
    d: "build_combined_zip env (combined_paths s3) (out_dir args) s3 = (Inr (), st')" and
    e: "combined_paths s3 = ?ps"
    using main_client_ok [of args env df st st'] by metis
  from h have "?ps \<noteq> []" by simp
  with build_combined_zip_entries [OF d] e
  show "\<exists>es. map_of (fs st') (combined_of (out_dir args)) = Some (File (Zip_file es)) \<and>
            list_all2 (\<lambda>e p. fst e = basename p \<or> fst e = basename p @ ''/'') es ?ps"
    by auto
qed

theorem archive_order_follows_rows_witness:
  "combined_paths (snd (main ex_env3 ex_args ex_state)) =
     [''outputs/gauge_02AB_subbasins.zip'', ''outputs/gauge_02EF_subbasins.zip''] \<and>
   (\<exists>es. map_of (fs (snd (main ex_env3 ex_args ex_state))) ''outputs/all_gauge_subbasins.zip'' =
           Some (File (Zip_file es)) \<and>
         list_all2 (\<lambda>e p. fst e = basename p \<or> fst e = basename p @ ''/'') es
           [''outputs/gauge_02AB_subbasins.zip'', ''outputs/gauge_02EF_subbasins.zip''])"
proof -
  let ?st' = "snd (main ex_env3 ex_args ex_state)"
  let ?rs = "filter (has_features ex_env3 ex_args) (first_rows (limit ex_args) (row_dicts ex_env3 ex_df3))"
  have a: "export_mode ex_args = Client" by (simp add: ex_args_def)
  have b: "read_csv ex_env3 (gauges_csv ex_args) = Inr ex_df3" by (simp add: ex_env3_def)
  have "fst (main ex_env3 ex_args ex_state) = Inr ()"
    by (simp add: ex_env3_def ex_df3_def eval_simps)
  then have c: "main ex_env3 ex_args ex_state = (Inr (), ?st')" by (metis prod.collapse)
  have ps: "map (archive_of ex_env3 ex_args) ?rs =
      [''outputs/gauge_02AB_subbasins.zip'', ''outputs/gauge_02EF_subbasins.zip'']"
    by (simp add: spec_defs ex_env3_def ex_df3_def eval_simps)
  then have d: "?rs \<noteq> []" by auto
  have e: "combined_of (out_dir ex_args) = ''outputs/all_gauge_subbasins.zip''"
    by (simp add: eval_simps)
  have p: "combined_paths ?st' =
     [''outputs/gauge_02AB_subbasins.zip'', ''outputs/gauge_02EF_subbasins.zip'']"
    by (simp add: ex_env3_def ex_df3_def eval_simps)
  note t = archive_order_follows_rows [where env = ex_env3 and args = ex_args and df = ex_df3
      and st = ex_state and st' = ?st', THEN conjunct2, THEN conjunct2, THEN conjunct2, rule_format]
  from t [OF conjI [OF a conjI [OF b conjI [OF c d]]]] p show ?thesis
    by (simp only: e ps)
qed

end
